theory Spec2Isabelle
  imports Main "HOL-Library.Char_ord" "HOL-Library.List_Lexorder" "HOL-Library.Multiset"
begin

section \<open>Strings\<close>

text \<open>
  A Python \<open>str\<close> is modelled as a HOL \<open>string\<close>, one \<open>char\<close> per code point, so the
  model covers the code points below 256. Strings compare as Python compares them:
  lexicographically by code point, a proper prefix being smaller.

  \<open>str.lower\<close> on these code points maps \<open>A\<close>..\<open>Z\<close> and the Latin-1 capitals
  (192..222 except the multiplication sign 215) to the letter 32 places further on and
  leaves every other character alone.
\<close>

definition lower_char :: "char \<Rightarrow> char" where
  "lower_char c =
     (let n = (of_char c :: nat)
      in if (65 \<le> n \<and> n \<le> 90) \<or> (192 \<le> n \<and> n \<le> 222 \<and> n \<noteq> 215)
         then char_of (n + 32) else c)"

definition lower :: "string \<Rightarrow> string" where
  "lower s = map lower_char s"

text \<open>\<open>str.isspace\<close> for one code point below 256: the characters \<open>str.strip()\<close> removes.\<close>

definition isspace :: "char \<Rightarrow> bool" where
  "isspace c = ((of_char c :: nat) \<in> {9, 10, 11, 12, 13, 28, 29, 30, 31, 32, 133, 160})"

definition strip :: "string \<Rightarrow> string" where
  "strip s = rev (dropWhile isspace (rev (dropWhile isspace s)))"


definition startswith :: "string \<Rightarrow> string \<Rightarrow> bool" where
  "startswith s p = (take (length p) s = p)"

text \<open>\<open>s.rfind(c)\<close>: the index of the last occurrence of \<open>c\<close>, or \<open>-1\<close>.\<close>

definition rfind :: "string \<Rightarrow> char \<Rightarrow> int" where
  "rfind s c =
     (if c \<in> set s
      then int (length s) - 1 - int (length (takeWhile (\<lambda>x. x \<noteq> c) (rev s)))
      else - 1)"

section \<open>Paths\<close>

text \<open>
  A \<open>pathlib.Path\<close> is carried as the string \<open>str(path)\<close>. \<open>name\<close> is the text after the
  last separator, and \<open>suffix\<close> and \<open>stem\<close> split the name at its last dot when that dot
  is neither the first nor the last character of the name (pathlib up to Python 3.13).
\<close>

type_synonym path = string

definition name :: "path \<Rightarrow> string" where
  "name p = rev (takeWhile (\<lambda>c. c \<noteq> CHR ''/'') (rev p))"

definition suffix :: "path \<Rightarrow> string" where
  "suffix p =
     (let i = rfind (name p) CHR ''.''
      in if 0 < i \<and> i < int (length (name p)) - 1 then drop (nat i) (name p) else [])"

definition stem :: "path \<Rightarrow> string" where
  "stem p =
     (let i = rfind (name p) CHR ''.''
      in if 0 < i \<and> i < int (length (name p)) - 1 then take (nat i) (name p) else name p)"

text \<open>\<open>str(path.absolute())\<close> in the working directory \<open>cwd\<close>.\<close>

definition absolute :: "string \<Rightarrow> path \<Rightarrow> string" where
  "absolute cwd p =
     (if startswith p ''/'' then p
      else if cwd = ''/'' then cwd @ p
      else cwd @ ''/'' @ p)"

section \<open>Natural sorting\<close>

text \<open>
  \<open>natsorted\<close> comes from the natsort library, which (from version 7 on) reads a path as
  its string. With no options it sorts, stably, by a key
  that splits \<open>str(path)\<close> into maximal runs of decimal digits, read as unsigned integers,
  and the text between them; the key always starts with a text chunk (the empty one when
  the string starts with a digit), so text is only ever compared with text and a number
  with a number. Keys compare as Python tuples do. This is the key of the library for
  ASCII strings. For other code points the library first normalises the string and
  reads some further characters as digits; that is not modelled, such characters are
  plain text here, and what is proved about the order is proved for ASCII paths.
\<close>

definition is_digit :: "char \<Rightarrow> bool" where
  "is_digit c = (48 \<le> (of_char c :: nat) \<and> (of_char c :: nat) \<le> 57)"

definition digit_val :: "char \<Rightarrow> nat" where
  "digit_val c = of_char c - 48"

datatype chunk = Num nat | Str string

instantiation chunk :: linorder
begin

text \<open>
  Python raises on comparing a number with a string; that comparison never happens
  between two keys, and the order puts numbers first there only to be total.
\<close>

fun less_eq_chunk :: "chunk \<Rightarrow> chunk \<Rightarrow> bool" where
  "less_eq_chunk (Num m) (Num n) = (m \<le> n)"
| "less_eq_chunk (Num m) (Str t) = True"
| "less_eq_chunk (Str s) (Num n) = False"
| "less_eq_chunk (Str s) (Str t) = (s \<le> t)"

definition less_chunk :: "chunk \<Rightarrow> chunk \<Rightarrow> bool" where
  "less_chunk a b = (a \<le> b \<and> \<not> b \<le> a)"

instance
proof
  fix x y z :: chunk
  show "(x < y) = (x \<le> y \<and> \<not> y \<le> x)" by (simp add: less_chunk_def)
  show "x \<le> x" by (cases x) simp_all
  show "x \<le> y \<Longrightarrow> y \<le> z \<Longrightarrow> x \<le> z"
    by (cases x; cases y; cases z) auto
  show "x \<le> y \<Longrightarrow> y \<le> x \<Longrightarrow> x = y"
    by (cases x; cases y) auto
  show "x \<le> y \<or> y \<le> x"
    by (cases x; cases y) auto
qed

end

text \<open>The scan keeps the chunk being read in its first argument.\<close>

fun natsort_split :: "chunk \<Rightarrow> string \<Rightarrow> chunk list" where
  "natsort_split cur [] = [cur]"
| "natsort_split (Num n) (c # cs) =
     (if is_digit c then natsort_split (Num (10 * n + digit_val c)) cs
      else Num n # natsort_split (Str [c]) cs)"
| "natsort_split (Str s) (c # cs) =
     (if is_digit c then Str s # natsort_split (Num (digit_val c)) cs
      else natsort_split (Str (s @ [c])) cs)"


definition natsort_key :: "string \<Rightarrow> chunk list" where
  "natsort_key s = (if s = [] then [] else natsort_split (Str []) s)"

definition natsorted :: "path list \<Rightarrow> path list" where
  "natsorted xs = sort_key natsort_key xs"

text \<open>
  A list of chunks in which text and numbers alternate, starting with text when the
  flag is set.
\<close>

fun alternates :: "bool \<Rightarrow> chunk list \<Rightarrow> bool" where
  "alternates b [] = True"
| "alternates b (Str s # r) = (b \<and> alternates False r)"
| "alternates b (Num n # r) = (\<not> b \<and> alternates True r)"

section \<open>Values, exceptions and the process\<close>

text \<open>
  What \<open>json.load\<close> returns and what the Imgur client returns: Python values built from
  \<open>None\<close>, booleans, numbers, strings, lists and dictionaries with string keys. A float is
  carried as its literal. A dictionary is an association list read with \<open>map_of\<close>.
\<close>

datatype json =
    JNull
  | JBool bool
  | JInt int
  | JFloat string
  | JStr string
  | JArr "json list"
  | JObj "(string \<times> json) list"

datatype exn =
    JSONDecodeError
  | OSError
  | TypeError
  | KeyError
  | ValueError
  | EOFError
  | SystemExit nat
  | ClientError string

text \<open>\<open>obj[key]\<close> with a string key: only a dictionary can be subscripted so.\<close>

fun getitem :: "json \<Rightarrow> string \<Rightarrow> exn + json" where
  "getitem (JObj kvs) k = (case map_of kvs k of None \<Rightarrow> Inl KeyError | Some v \<Rightarrow> Inr v)"
| "getitem v k = Inl TypeError"

text \<open>
  Everything the process does that can be observed, in order: lines printed, the traceback
  of an exception nothing caught, lines read from standard input together with the prompt
  shown, file-type checks, and the calls to the Imgur client with what each returned or
  raised.
\<close>

datatype event =
    Print string
  | PrintExn exn
  | PrintFound nat
  | PrintAlbumId json
  | PrintAlbumUrl json
  | Traceback exn
  | Input string "string option"
  | IsFile path bool
  | ImageUpload string string string "exn + json"
  | AlbumCreate "json list" "string option" string string "exn + json"

text \<open>
  What the process finds at the configuration path. The content of a file is
  represented by what \<open>json.load\<close> makes of it: the value of a JSON document, text that
  is not JSON (\<open>JSONDecodeError\<close>), a failing read (\<open>OSError\<close>), or bytes that are not
  text (\<open>UnicodeDecodeError\<close>, a \<open>ValueError\<close>). \<open>Unsearchable\<close> is a path that may not
  even be examined, because its directory cannot be searched: every access to it,
  \<open>exists()\<close> included (pathlib up to Python 3.13), raises \<open>PermissionError\<close>, an
  \<open>OSError\<close>. Whether a file can be opened for reading and for writing is kept apart
  from its content, and \<open>json.dump\<close> writes what \<open>json.load\<close> reads back.
\<close>

datatype file_text = Document json | Malformed | Unreadable | Undecodable | Unsearchable

record world =
  config_file :: "file_text option"
  config_readable :: bool
  config_writable :: bool
  stdin_pos :: nat
  trace :: "event list"

text \<open>
  The surroundings the process cannot change: the configuration directory, the working
  directory, the lines waiting on standard input (\<open>None\<close> from the end of input on), the
  file system, and the Imgur service. A file-type check and a call to the service may
  answer differently as the run proceeds, so they see the trace so far.
\<close>

record env =
  xdg_config_home :: string
  cwd :: string
  stdin :: "nat \<Rightarrow> string option"
  is_dir :: "path \<Rightarrow> bool"
  iterdir :: "path \<Rightarrow> path list option"
  is_file :: "event list \<Rightarrow> path \<Rightarrow> bool"
  image_upload :: "event list \<Rightarrow> json \<Rightarrow> string \<Rightarrow> string \<Rightarrow> string \<Rightarrow> exn + json"
  album_create ::
    "event list \<Rightarrow> json \<Rightarrow> json list \<Rightarrow> string option \<Rightarrow> string \<Rightarrow> string \<Rightarrow> exn + json"

definition emit :: "event \<Rightarrow> world \<Rightarrow> world" where
  "emit e w = w\<lparr>trace := trace w @ [e]\<rparr>"

text \<open>
  The exit status of the process: the code of \<open>sys.exit\<close>, 1 for any other exception
  that reaches the top level, 0 when \<open>main\<close> returns.
\<close>

fun exit_code :: "exn + unit \<Rightarrow> nat" where
  "exit_code (Inr u) = 0"
| "exit_code (Inl (SystemExit n)) = n"
| "exit_code (Inl e) = 1"

section \<open>Configuration\<close>

definition get_config_path :: "env \<Rightarrow> path" where
  "get_config_path e = xdg_config_home e @ ''/'' @ (''chapterup'' @ ''rc'')"

record Config =
  imgur_access_token :: json

text \<open>
  \<open>Config(**data)\<close>: \<open>data\<close> must be a mapping, every key must be the name of the one
  field, and an absent field takes its default. The dataclass does not check the type of
  the value.
\<close>

definition Config_default :: Config where
  "Config_default = \<lparr>imgur_access_token = JStr []\<rparr>"

fun Config_init :: "json \<Rightarrow> exn + Config" where
  "Config_init (JObj kvs) =
     (if \<exists>k \<in> set (map fst kvs). k \<noteq> ''imgur_access_token'' then Inl TypeError
      else case map_of kvs ''imgur_access_token'' of
             None \<Rightarrow> Inr Config_default
           | Some v \<Rightarrow> Inr \<lparr>imgur_access_token = v\<rparr>)"
| "Config_init v = Inl TypeError"

definition asdict :: "Config \<Rightarrow> json" where
  "asdict c = JObj [(''imgur_access_token'', imgur_access_token c)]"

definition from_json_file :: "world \<Rightarrow> exn + Config" where
  "from_json_file w =
     (if \<not> config_readable w then Inl OSError
      else case config_file w of
             None \<Rightarrow> Inl OSError
           | Some Malformed \<Rightarrow> Inl JSONDecodeError
           | Some Unreadable \<Rightarrow> Inl OSError
           | Some Undecodable \<Rightarrow> Inl ValueError
           | Some Unsearchable \<Rightarrow> Inl OSError
           | Some (Document data) \<Rightarrow> Config_init data)"

definition to_json_file :: "Config \<Rightarrow> world \<Rightarrow> (exn + unit) \<times> world" where
  "to_json_file self w =
     (if config_writable w \<and> config_file w \<noteq> Some Unsearchable
      then (Inr (), w\<lparr>config_file := Some (Document (asdict self))\<rparr>)
      else (Inl OSError, w))"

text \<open>
  \<open>config_path.exists()\<close>: whether there is something at the path, or the
  \<open>PermissionError\<close> of a path that may not be examined. In \<open>load_config\<close> this call
  stands before the \<open>try\<close>, so its exception is not caught there.
\<close>

definition exists :: "world \<Rightarrow> exn + bool" where
  "exists w =
     (case config_file w of
        None \<Rightarrow> Inr False
      | Some Unsearchable \<Rightarrow> Inl OSError
      | Some ft \<Rightarrow> Inr True)"

definition load_config :: "world \<Rightarrow> (exn + Config) \<times> world" where
  "load_config w =
     (case exists w of
        Inl e \<Rightarrow> (Inl e, w)
      | Inr found \<Rightarrow>
          if found
          then case from_json_file w of
                 Inr c \<Rightarrow> (Inr c, w)
               | Inl e \<Rightarrow>
                   if e = JSONDecodeError \<or> e = OSError
                   then (Inl (SystemExit 1),
                         emit (PrintExn e) (emit (Print ''Error: Could not read configuration file.'') w))
                   else (Inl e, w)
          else (Inr Config_default, w))"

section \<open>Confirmation\<close>

text \<open>
  \<open>input(prompt)\<close> shows the prompt and reads the next line, or raises at the end of
  input. The loop of \<open>get_confirmation\<close> has no bound, so it is a partial function:
  \<open>None\<close> is a run that never returns.
\<close>

definition input :: "env \<Rightarrow> string \<Rightarrow> world \<Rightarrow> (exn + string) \<times> world" where
  "input e prompt w =
     (case stdin e (stdin_pos w) of
        None \<Rightarrow> (Inl EOFError, emit (Input prompt None) w)
      | Some l \<Rightarrow> (Inr l, emit (Input prompt (Some l)) (w\<lparr>stdin_pos := stdin_pos w + 1\<rparr>)))"

partial_function (option) confirmation_loop ::
  "env \<Rightarrow> string \<Rightarrow> bool option \<Rightarrow> world \<Rightarrow> ((exn + bool) \<times> world) option" where
  "confirmation_loop e prompt dflt w =
     (case input e prompt w of
        (Inl x, w1) \<Rightarrow> Some (Inl x, w1)
      | (Inr user_input, w1) \<Rightarrow>
          if startswith (strip (lower user_input)) ''y'' then Some (Inr True, w1)
          else if startswith (strip (lower user_input)) ''n'' then Some (Inr False, w1)
          else if user_input = [] \<and> dflt \<noteq> None then Some (Inr (the dflt), w1)
          else confirmation_loop e prompt dflt
                 (emit (Print ''Invalid input. Please try again.'') w1))"

definition prompt_with_hint :: "string \<Rightarrow> bool option \<Rightarrow> string" where
  "prompt_with_hint prompt dflt =
     (case dflt of
        None \<Rightarrow> prompt @ '' [y/n]''
      | Some True \<Rightarrow> prompt @ '' [Y/n]''
      | Some False \<Rightarrow> prompt @ '' [y/N]'') @ '' > ''"

definition get_confirmation ::
  "env \<Rightarrow> string \<Rightarrow> bool option \<Rightarrow> world \<Rightarrow> ((exn + bool) \<times> world) option" where
  "get_confirmation e prompt dflt w =
     confirmation_loop e (prompt_with_hint prompt dflt) dflt w"

text \<open>
  The answer the specification gives to one line of input, in its own words: \<open>Some True\<close>
  for a line whose first character after leading whitespace is \<open>y\<close> or \<open>Y\<close>,
  \<open>Some False\<close> when it is \<open>n\<close> or \<open>N\<close>, the default for the empty line, and \<open>None\<close>
  (ask again) for every other line. It is compared with the loop below.
\<close>

definition answer_spec :: "bool option \<Rightarrow> string \<Rightarrow> bool option" where
  "answer_spec dflt l =
     (case dropWhile isspace l of
        c # cs \<Rightarrow>
          if c = CHR ''y'' \<or> c = CHR ''Y'' then Some True
          else if c = CHR ''n'' \<or> c = CHR ''N'' then Some False
          else None
      | [] \<Rightarrow> if l = [] then dflt else None)"

text \<open>
  What \<open>k\<close> rejected lines starting at position \<open>pos\<close> of standard input leave in the
  trace: each is read under the prompt and answered with the notice.
\<close>

fun reprompts :: "env \<Rightarrow> string \<Rightarrow> nat \<Rightarrow> nat \<Rightarrow> event list" where
  "reprompts e p pos 0 = []"
| "reprompts e p pos (Suc k) =
     Input p (stdin e pos) # Print ''Invalid input. Please try again.'' # reprompts e p (Suc pos) k"

section \<open>Discovery\<close>

definition image_suffixes :: "string list" where
  "image_suffixes = [''.jpg'', ''.jpeg'', ''.png'', ''.gif'']"

definition get_image_paths :: "env \<Rightarrow> path \<Rightarrow> exn + path list" where
  "get_image_paths e dir_path =
     (case iterdir e dir_path of
        None \<Rightarrow> Inl OSError
      | Some entries \<Rightarrow>
          Inr (filter (\<lambda>p. lower (suffix p) \<in> set image_suffixes) (natsorted entries)))"

section \<open>Upload\<close>

text \<open>
  The loop of \<open>imgur_upload\<close> over the paths, with the identifiers collected so far. An
  exception of the client, or a response without the expected fields, ends the run.
\<close>

definition response_id :: "json \<Rightarrow> exn + json" where
  "response_id r =
     (case getitem r ''response'' of
        Inl x \<Rightarrow> Inl x
      | Inr a \<Rightarrow> (case getitem a ''data'' of
                   Inl x \<Rightarrow> Inl x
                 | Inr b \<Rightarrow> getitem b ''id''))"

fun upload_images ::
  "env \<Rightarrow> json \<Rightarrow> path list \<Rightarrow> json list \<Rightarrow> world \<Rightarrow> (exn + json list) \<times> world" where
  "upload_images e token [] image_ids w = (Inr image_ids, w)"
| "upload_images e token (image_path # rest) image_ids w =
     (let ok = is_file e (trace w) image_path;
          w1 = emit (IsFile image_path ok) w
      in if ok
         then (let r = image_upload e (trace w1) token
                         (absolute (cwd e) image_path) (stem image_path) (stem image_path);
                   w2 = emit (ImageUpload (absolute (cwd e) image_path)
                                (stem image_path) (stem image_path) r) w1
               in case r of
                    Inl x \<Rightarrow> (Inl x, w2)
                  | Inr img \<Rightarrow>
                      (case response_id img of
                         Inl x \<Rightarrow> (Inl x, w2)
                       | Inr image_id \<Rightarrow>
                           upload_images e token rest (image_ids @ [image_id]) w2))
         else upload_images e token rest image_ids w1)"

definition imgur_upload ::
  "env \<Rightarrow> path list \<Rightarrow> Config \<Rightarrow> string option \<Rightarrow> bool \<Rightarrow> world \<Rightarrow> (exn + unit) \<times> world" where
  "imgur_upload e image_paths config album_name public w =
     (case upload_images e (imgur_access_token config) image_paths [] w of
        (Inl x, w1) \<Rightarrow> (Inl x, w1)
      | (Inr image_ids, w1) \<Rightarrow>
          (let privacy = (if \<not> public then ''hidden'' else ''public'');
               r = album_create e (trace w1) (imgur_access_token config)
                     image_ids album_name [] privacy;
               w2 = emit (AlbumCreate image_ids album_name [] privacy r) w1
           in case r of
                Inl x \<Rightarrow> (Inl x, w2)
              | Inr album \<Rightarrow>
                  (case response_id album of
                     Inl x \<Rightarrow> (Inl x, w2)
                   | Inr album_id \<Rightarrow>
                       (Inr (),
                        emit (PrintAlbumUrl album_id)
                          (emit (PrintAlbumId album_id)
                             (emit (Print (replicate 50 CHR ''-'')) w2))))))"

section \<open>The command line\<close>

text \<open>
  The parsed arguments: a positional argument or an option with a value is \<open>None\<close> when
  it was not given.
\<close>

record args =
  dir_path :: "string option"
  album_name :: "string option"
  access_token :: "string option"
  public :: bool
  show_config_path :: bool

text \<open>
  \<open>main\<close> in three parts: \<open>set_access_token\<close> is the update of the configuration
  when a token was given (an empty token counts as none), \<open>upload_directory\<close> is everything
  from the check of the directory on, and \<open>main\<close> puts them after \<open>load_config\<close>.
  \<open>Path(None)\<close> raises a \<open>TypeError\<close>.
\<close>

definition set_access_token :: "args \<Rightarrow> Config \<Rightarrow> world \<Rightarrow> (exn + Config) \<times> world" where
  "set_access_token a config w =
     (case access_token a of
        None \<Rightarrow> (Inr config, w)
      | Some t \<Rightarrow>
          if t \<noteq> []
          then (case to_json_file (config\<lparr>imgur_access_token := JStr t\<rparr>) w of
                  (Inl x, w1) \<Rightarrow> (Inl x, w1)
                | (Inr u, w1) \<Rightarrow> (Inr (config\<lparr>imgur_access_token := JStr t\<rparr>), w1))
          else (Inr config, w))"

definition print_paths :: "path list \<Rightarrow> world \<Rightarrow> world" where
  "print_paths ps w = fold (\<lambda>p. emit (Print (name p))) ps w"

definition confirm_and_upload ::
  "env \<Rightarrow> args \<Rightarrow> Config \<Rightarrow> path list \<Rightarrow> world \<Rightarrow> ((exn + unit) \<times> world) option" where
  "confirm_and_upload e a config image_paths w =
     (case get_confirmation e ''Do you want to continue?'' (Some False)
             (emit (PrintFound (length image_paths))
                (print_paths image_paths
                   (emit (Print ''The following test_images will be uploaded in order:'') w))) of
        None \<Rightarrow> None
      | Some (Inl x, w1) \<Rightarrow> Some (Inl x, w1)
      | Some (Inr yes, w1) \<Rightarrow>
          if \<not> yes then Some (Inl (SystemExit 0), emit (Print ''Aborting.'') w1)
          else Some (imgur_upload e image_paths config (album_name a) (public a) w1))"

definition upload_directory ::
  "env \<Rightarrow> args \<Rightarrow> Config \<Rightarrow> world \<Rightarrow> ((exn + unit) \<times> world) option" where
  "upload_directory e a config w =
     (case dir_path a of
        None \<Rightarrow> Some (Inl TypeError, w)
      | Some d \<Rightarrow>
          if \<not> is_dir e d
          then Some (Inl (SystemExit 1),
                     emit (Print ''Error: The given path is not a directory.'') w)
          else
            case get_image_paths e d of
              Inl x \<Rightarrow> Some (Inl x, w)
            | Inr image_paths \<Rightarrow>
                if image_paths = []
                then Some (Inl (SystemExit 1),
                           emit (Print ''Error: The given directory does not contain any test_images.'') w)
                else confirm_and_upload e a config image_paths w)"

definition main :: "env \<Rightarrow> args \<Rightarrow> world \<Rightarrow> ((exn + unit) \<times> world) option" where
  "main e a w =
     (if show_config_path a then Some (Inr (), emit (Print (get_config_path e)) w)
      else
        case load_config w of
          (Inl x, w1) \<Rightarrow> Some (Inl x, w1)
        | (Inr config, w1) \<Rightarrow>
            (case set_access_token a config w1 of
               (Inl x, w2) \<Rightarrow> Some (Inl x, w2)
             | (Inr config', w2) \<Rightarrow> upload_directory e a config' w2))"

text \<open>
  The process runs \<open>main\<close>; the interpreter prints the traceback of an exception other
  than \<open>SystemExit\<close> that reaches the top level. The result is the exit status.
\<close>

definition process :: "env \<Rightarrow> args \<Rightarrow> world \<Rightarrow> (nat \<times> world) option" where
  "process e a w =
     (case main e a w of
        None \<Rightarrow> None
      | Some (r, w1) \<Rightarrow>
          Some (exit_code r,
                case r of
                  Inr u \<Rightarrow> w1
                | Inl (SystemExit n) \<Rightarrow> w1
                | Inl x \<Rightarrow> emit (Traceback x) w1))"

text \<open>Kinds of events: a prompt, a call to the Imgur client, an error report.\<close>

fun is_prompt :: "event \<Rightarrow> bool" where
  "is_prompt (Input p l) = True"
| "is_prompt ev = False"

fun is_network_call :: "event \<Rightarrow> bool" where
  "is_network_call (ImageUpload f t d r) = True"
| "is_network_call (AlbumCreate ids t d p r) = True"
| "is_network_call ev = False"

fun is_error_message :: "event \<Rightarrow> bool" where
  "is_error_message (Print s) = startswith s ''Error:''"
| "is_error_message (Traceback x) = True"
| "is_error_message ev = False"

section \<open>Reading a trace\<close>

text \<open>
  The file-type checks of a trace with their answers, the image uploads with the file
  given and the result, and the identifier lists given to album creation, each in order.
  \<open>upload_id\<close> is the identifier an upload yields: the field the loop extracts from the
  response, or the exception met on the way.
\<close>

fun file_checks :: "event list \<Rightarrow> (path \<times> bool) list" where
  "file_checks [] = []"
| "file_checks (IsFile p b # tr) = (p, b) # file_checks tr"
| "file_checks (ev # tr) = file_checks tr"

fun upload_calls :: "event list \<Rightarrow> (string \<times> (exn + json)) list" where
  "upload_calls [] = []"
| "upload_calls (ImageUpload f t d r # tr) = (f, r) # upload_calls tr"
| "upload_calls (ev # tr) = upload_calls tr"

fun album_calls :: "event list \<Rightarrow> json list list" where
  "album_calls [] = []"
| "album_calls (AlbumCreate ids t d p r # tr) = ids # album_calls tr"
| "album_calls (ev # tr) = album_calls tr"

fun upload_id :: "string \<times> (exn + json) \<Rightarrow> exn + json" where
  "upload_id (f, Inl x) = Inl x"
| "upload_id (f, Inr img) = response_id img"

text \<open>
  Two properties of a stretch \<open>new\<close> of the trace that follows the events \<open>before\<close>.
  \<open>uploads_follow_checks\<close>: every image upload comes directly after a file-type check of
  the same path that answered yes, and is called with the absolute path and the stem of
  that path. \<open>checks_decide\<close>: every check reports what the file system says at that
  moment, and a check that answered no is not followed by an upload.
\<close>

definition uploads_follow_checks :: "env \<Rightarrow> event list \<Rightarrow> event list \<Rightarrow> bool" where
  "uploads_follow_checks e before new =
     (\<forall>pre f t d x post. new = pre @ ImageUpload f t d x # post \<longrightarrow>
        (\<exists>pre' p. pre = pre' @ [IsFile p True] \<and> is_file e (before @ pre') p
                  \<and> f = absolute (cwd e) p \<and> t = stem p \<and> d = stem p))"

definition checks_decide :: "env \<Rightarrow> event list \<Rightarrow> event list \<Rightarrow> bool" where
  "checks_decide e before new =
     (\<forall>pre p b post. new = pre @ IsFile p b # post \<longrightarrow>
        b = is_file e (before @ pre) p
        \<and> (\<not> b \<longrightarrow> (\<forall>f t d x post'. post \<noteq> ImageUpload f t d x # post')))"

section \<open>Example surroundings\<close>

text \<open>
  A directory \<open>pics\<close> with the four images of the specification's scenario, a text file
  and a directory named like an image; a directory \<open>scans\<close> with numbered images; a
  directory \<open>empty\<close> without images; a service that answers every upload with the
  title as identifier; and a user who types \<open>maybe\<close> and then \<open>y\<close>.
\<close>

fun lines_of :: "string list \<Rightarrow> nat \<Rightarrow> string option" where
  "lines_of [] i = None"
| "lines_of (l # ls) 0 = Some l"
| "lines_of (l # ls) (Suc i) = lines_of ls i"

definition reply :: "json \<Rightarrow> json" where
  "reply v = JObj [(''response'', JObj [(''data'', JObj [(''id'', v)])])]"

definition example_env :: env where
  "example_env =
     \<lparr>xdg_config_home = ''/home/u/.config'',
      cwd = ''/home/u'',
      stdin = lines_of [''maybe'', ''y''],
      is_dir = (\<lambda>p. p = ''pics'' \<or> p = ''empty'' \<or> p = ''scans''),
      iterdir = (\<lambda>p. if p = ''pics''
                      then Some [''pics/b.jpg'', ''pics/photo.jpg'', ''pics/a.png'',
                                 ''pics/c10.gif'', ''pics/notes.txt'', ''pics/c2.gif'']
                      else if p = ''empty'' then Some [''empty/notes.txt'']
                      else if p = ''scans''
                      then Some [''scans/img10.png'', ''scans/notes.txt'', ''scans/img1.png'',
                                 ''scans/IMG3.PNG'', ''scans/img2.png'']
                      else None),
      is_file = (\<lambda>tr p. p \<noteq> ''pics/photo.jpg''),
      image_upload = (\<lambda>tr token file title description. Inr (reply (JStr title))),
      album_create = (\<lambda>tr token ids title description privacy. Inr (reply (JStr ''album'')))\<rparr>"

definition example_world :: world where
  "example_world =
     \<lparr>config_file = None, config_readable = True, config_writable = True,
      stdin_pos = 0, trace = []\<rparr>"

definition example_args :: args where
  "example_args =
     \<lparr>dir_path = Some ''pics'', album_name = Some ''Chapter 1'', access_token = None,
      public = False, show_config_path = False\<rparr>"

definition example_paths :: "path list" where
  "example_paths =
     [''pics/a.png'', ''pics/b.jpg'', ''pics/c2.gif'', ''pics/c10.gif'', ''pics/photo.jpg'']"

definition example_upload_trace :: "event list" where
  "example_upload_trace =
     [IsFile ''pics/a.png'' True,
      ImageUpload ''/home/u/pics/a.png'' ''a'' ''a'' (Inr (reply (JStr ''a''))),
      IsFile ''pics/b.jpg'' True,
      ImageUpload ''/home/u/pics/b.jpg'' ''b'' ''b'' (Inr (reply (JStr ''b''))),
      IsFile ''pics/c2.gif'' True,
      ImageUpload ''/home/u/pics/c2.gif'' ''c2'' ''c2'' (Inr (reply (JStr ''c2''))),
      IsFile ''pics/c10.gif'' True,
      ImageUpload ''/home/u/pics/c10.gif'' ''c10'' ''c10'' (Inr (reply (JStr ''c10''))),
      IsFile ''pics/photo.jpg'' False,
      AlbumCreate [JStr ''a'', JStr ''b'', JStr ''c2'', JStr ''c10''] (Some ''Chapter 1'') []
        ''hidden'' (Inr (reply (JStr ''album''))),
      Print ''--------------------------------------------------'',
      PrintAlbumId (JStr ''album''),
      PrintAlbumUrl (JStr ''album'')]"

definition example_prompt_trace :: "event list" where
  "example_prompt_trace =
     [Print ''The following test_images will be uploaded in order:'',
      Print ''a.png'', Print ''b.jpg'', Print ''c2.gif'', Print ''c10.gif'', Print ''photo.jpg'',
      PrintFound 5,
      Input ''Do you want to continue? [y/N] > '' (Some ''maybe''),
      Print ''Invalid input. Please try again.'',
      Input ''Do you want to continue? [y/N] > '' (Some ''y'')]"

section \<open>Loading the configuration\<close>

lemma load_config_absent:
  "config_file w = None \<Longrightarrow> load_config w = (Inr Config_default, w)"
  by (simp add: load_config_def exists_def)

lemma load_config_unopenable:
  "config_file w = Some ft \<Longrightarrow> ft \<noteq> Unsearchable \<Longrightarrow> \<not> config_readable w \<Longrightarrow>
   load_config w = (Inl (SystemExit 1),
      emit (PrintExn OSError) (emit (Print ''Error: Could not read configuration file.'') w))"
  by (cases ft) (simp_all add: load_config_def exists_def from_json_file_def)

lemma load_config_malformed:
  "config_file w = Some Malformed \<Longrightarrow> config_readable w \<Longrightarrow>
   load_config w = (Inl (SystemExit 1),
      emit (PrintExn JSONDecodeError) (emit (Print ''Error: Could not read configuration file.'') w))"
  by (simp add: load_config_def exists_def from_json_file_def)

lemma load_config_unreadable:
  "config_file w = Some Unreadable \<Longrightarrow> config_readable w \<Longrightarrow>
   load_config w = (Inl (SystemExit 1),
      emit (PrintExn OSError) (emit (Print ''Error: Could not read configuration file.'') w))"
  by (simp add: load_config_def exists_def from_json_file_def)

lemma load_config_undecodable:
  "config_file w = Some Undecodable \<Longrightarrow> config_readable w \<Longrightarrow>
   load_config w = (Inl ValueError, w)"
  by (simp add: load_config_def exists_def from_json_file_def)

lemma load_config_unsearchable:
  "config_file w = Some Unsearchable \<Longrightarrow> load_config w = (Inl OSError, w)"
  by (simp add: load_config_def exists_def)

lemma load_config_document:
  "config_file w = Some (Document d) \<Longrightarrow> config_readable w \<Longrightarrow>
   load_config w = (case Config_init d of
                      Inr c \<Rightarrow> (Inr c, w)
                    | Inl x \<Rightarrow> if x = JSONDecodeError \<or> x = OSError
                               then (Inl (SystemExit 1),
                                     emit (PrintExn x) (emit (Print ''Error: Could not read configuration file.'') w))
                               else (Inl x, w))"
  by (simp add: load_config_def exists_def from_json_file_def)

lemma Config_init_raises: "Config_init d = Inl x \<Longrightarrow> x = TypeError"
  by (cases d) (auto split: if_splits option.splits)


lemma load_config_returns:
  assumes "load_config w = (Inr c, w1)"
  shows "w1 = w \<and> (config_file w = None \<and> c = Config_default
           \<or> (\<exists>data. config_file w = Some (Document data) \<and> config_readable w
                      \<and> Config_init data = Inr c))"
proof (cases "config_file w")
  case None
  with assms show ?thesis by (simp add: load_config_absent)
next
  case (Some ft)
  show ?thesis
  proof (cases "config_readable w")
    case False
    with Some assms show ?thesis
      by (cases "ft = Unsearchable") (simp_all add: load_config_unsearchable load_config_unopenable)
  next
    case True
    with Some assms show ?thesis
      by (cases ft)
        (auto simp add: load_config_document load_config_malformed load_config_unreadable
           load_config_undecodable load_config_unsearchable split: sum.splits if_splits)
  qed
qed

lemma load_config_effect:
  assumes "load_config w = (r, w1)"
  shows "(\<exists>c. r = Inr c \<and> w1 = w)
         \<or> (\<exists>x. r = Inl x \<and> (\<forall>n. x \<noteq> SystemExit n) \<and> w1 = w)
         \<or> (\<exists>x. r = Inl (SystemExit 1) \<and>
                 w1 = emit (PrintExn x) (emit (Print ''Error: Could not read configuration file.'') w))"
proof (cases r)
  case (Inr c)
  with assms load_config_returns [of w c w1] show ?thesis by simp
next
  case (Inl y)
  show ?thesis
  proof (cases "config_file w")
    case None
    with assms Inl show ?thesis by (simp add: load_config_absent)
  next
    case (Some ft)
    show ?thesis
    proof (cases "config_readable w")
      case False
      with Some assms Inl show ?thesis
        by (cases "ft = Unsearchable")
          (auto simp add: load_config_unsearchable load_config_unopenable)
    next
      case True
      show ?thesis
      proof (cases ft)
        case (Document d)
        with Some True assms Inl have
          "Config_init d = Inl y \<and> w1 = w"
          by (auto simp add: load_config_document split: sum.splits if_splits
                dest: Config_init_raises)
        then have "y = TypeError \<and> w1 = w" by (auto dest: Config_init_raises)
        with Inl show ?thesis by simp
      next
        case Malformed
        with Some True assms Inl show ?thesis by (auto simp add: load_config_malformed)
      next
        case Unreadable
        with Some True assms Inl show ?thesis by (auto simp add: load_config_unreadable)
      next
        case Undecodable
        with Some True assms Inl show ?thesis by (auto simp add: load_config_undecodable)
      next
        case Unsearchable
        with Some assms Inl show ?thesis by (auto simp add: load_config_unsearchable)
      qed
    qed
  qed
qed




section \<open>Strictness of the configuration\<close>

lemma Config_init_unknown_key:
  "k \<in> set (map fst kvs) \<Longrightarrow> k \<noteq> ''imgur_access_token'' \<Longrightarrow>
   Config_init (JObj kvs) = Inl TypeError"
  by auto

lemma Config_init_no_field:
  "\<forall>k \<in> set (map fst kvs). k = ''imgur_access_token'' \<Longrightarrow>
   ''imgur_access_token'' \<notin> set (map fst kvs) \<Longrightarrow>
   Config_init (JObj kvs) = Inr Config_default"
  by (cases kvs) auto

text \<open>
  Claim C4, as stated, fails: the empty JSON object lacks the key \<open>imgur_access_token\<close>,
  and the configuration is built from it all the same, with the default token; nothing
  is raised.
\<close>

theorem from_json_file_empty_object_counterexample:
  "''imgur_access_token'' \<notin> set (map fst [])
   \<and> from_json_file (example_world\<lparr>config_file := Some (Document (JObj []))\<rparr>) =
       Inr \<lparr>imgur_access_token = JStr []\<rparr>
   \<and> load_config (example_world\<lparr>config_file := Some (Document (JObj []))\<rparr>) =
       (Inr \<lparr>imgur_access_token = JStr []\<rparr>,
        example_world\<lparr>config_file := Some (Document (JObj []))\<rparr>)"
  by (simp add: load_config_def exists_def from_json_file_def example_world_def Config_default_def)

text \<open>
  Claim C4, amended. For a readable configuration file holding a JSON object: when the
  object has a key other than \<open>imgur_access_token\<close>, the construction raises a
  \<open>TypeError\<close>, which \<open>load_config\<close> does not catch; when the object has no unknown key
  and lacks \<open>imgur_access_token\<close>, it is accepted and gives the default configuration
  with the empty token.
\<close>

theorem from_json_file_strictness:
  assumes "config_file w = Some (Document (JObj kvs))" and "config_readable w"
  shows "((\<exists>k \<in> set (map fst kvs). k \<noteq> ''imgur_access_token'') \<longrightarrow>
            from_json_file w = Inl TypeError \<and> load_config w = (Inl TypeError, w))
         \<and> ((\<forall>k \<in> set (map fst kvs). k = ''imgur_access_token'')
              \<and> ''imgur_access_token'' \<notin> set (map fst kvs) \<longrightarrow>
            from_json_file w = Inr \<lparr>imgur_access_token = JStr []\<rparr>
            \<and> load_config w = (Inr \<lparr>imgur_access_token = JStr []\<rparr>, w))"
proof (intro conjI impI)
  assume "\<exists>k \<in> set (map fst kvs). k \<noteq> ''imgur_access_token''"
  then have i: "Config_init (JObj kvs) = Inl TypeError"
    using Config_init_unknown_key by blast
  with assms show "from_json_file w = Inl TypeError"
    by (simp add: from_json_file_def)
  from assms i show "load_config w = (Inl TypeError, w)"
    by (simp add: load_config_document)
next
  assume "(\<forall>k \<in> set (map fst kvs). k = ''imgur_access_token'')
              \<and> ''imgur_access_token'' \<notin> set (map fst kvs)"
  then have i: "Config_init (JObj kvs) = Inr Config_default"
    using Config_init_no_field by blast
  with assms show "from_json_file w = Inr \<lparr>imgur_access_token = JStr []\<rparr>"
    by (simp add: from_json_file_def Config_default_def)
  from assms i show "load_config w = (Inr \<lparr>imgur_access_token = JStr []\<rparr>, w)"
    by (simp add: load_config_document Config_default_def)
qed

theorem from_json_file_strictness_witness:
  "load_config (example_world\<lparr>config_file :=
       Some (Document (JObj [(''imgur_access_token'', JStr ''abc123''), (''colour'', JStr ''red'')]))\<rparr>)
     = (Inl TypeError, example_world\<lparr>config_file :=
       Some (Document (JObj [(''imgur_access_token'', JStr ''abc123''), (''colour'', JStr ''red'')]))\<rparr>)
   \<and> load_config (example_world\<lparr>config_file := Some (Document (JObj []))\<rparr>)
     = (Inr \<lparr>imgur_access_token = JStr []\<rparr>,
        example_world\<lparr>config_file := Some (Document (JObj []))\<rparr>)"
  using from_json_file_strictness
      [of "example_world\<lparr>config_file :=
       Some (Document (JObj [(''imgur_access_token'', JStr ''abc123''), (''colour'', JStr ''red'')]))\<rparr>"
       "[(''imgur_access_token'', JStr ''abc123''), (''colour'', JStr ''red'')]"]
    from_json_file_strictness [of "example_world\<lparr>config_file := Some (Document (JObj []))\<rparr>" "[]"]
  by (simp add: example_world_def)

section \<open>Saving and loading\<close>

lemma to_json_file_result:
  "to_json_file c w = (Inr (), w') \<Longrightarrow>
   w' = w\<lparr>config_file := Some (Document (asdict c))\<rparr>"
  by (auto simp add: to_json_file_def split: if_splits)

lemma Config_init_asdict: "Config_init (asdict c) = Inr c"
  by (simp add: asdict_def)

text \<open>
  Claim C6. For every token string: when saving a configuration with that token
  succeeds and the file can then be opened for reading, \<open>load_config\<close> on the resulting
  file returns a configuration with the same token.
\<close>

theorem config_round_trip:
  assumes "to_json_file \<lparr>imgur_access_token = JStr token\<rparr> w = (Inr (), w')"
    and "config_readable w'"
  shows "load_config w' = (Inr \<lparr>imgur_access_token = JStr token\<rparr>, w')"
proof -
  have "config_file w' = Some (Document (asdict \<lparr>imgur_access_token = JStr token\<rparr>))"
    using to_json_file_result [OF assms(1)] by simp
  then show ?thesis
    using assms(2) by (simp add: load_config_document Config_init_asdict)
qed

theorem config_round_trip_witness:
  "to_json_file \<lparr>imgur_access_token = JStr ''abc123''\<rparr> example_world =
     (Inr (), example_world\<lparr>config_file :=
        Some (Document (JObj [(''imgur_access_token'', JStr ''abc123'')]))\<rparr>)
   \<and> load_config (example_world\<lparr>config_file :=
        Some (Document (JObj [(''imgur_access_token'', JStr ''abc123'')]))\<rparr>) =
     (Inr \<lparr>imgur_access_token = JStr ''abc123''\<rparr>,
      example_world\<lparr>config_file :=
        Some (Document (JObj [(''imgur_access_token'', JStr ''abc123'')]))\<rparr>)"
proof -
  have s: "to_json_file \<lparr>imgur_access_token = JStr ''abc123''\<rparr> example_world =
     (Inr (), example_world\<lparr>config_file :=
        Some (Document (JObj [(''imgur_access_token'', JStr ''abc123'')]))\<rparr>)"
    by (simp add: to_json_file_def example_world_def asdict_def)
  have r: "config_readable (example_world\<lparr>config_file :=
        Some (Document (JObj [(''imgur_access_token'', JStr ''abc123'')]))\<rparr>)"
    by (simp add: example_world_def)
  show ?thesis using s config_round_trip [OF s r] by simp
qed

section \<open>The confirmation loop\<close>

lemma of_char_lower_char:
  "(of_char (lower_char c) :: nat) =
     (let n = of_char c in
      if (65 \<le> n \<and> n \<le> 90) \<or> (192 \<le> n \<and> n \<le> 222 \<and> n \<noteq> 215) then n + 32 else n)"
  by (auto simp add: lower_char_def Let_def)

lemma isspace_lower_char [simp]: "isspace (lower_char c) = isspace c"
  by (auto simp add: isspace_def of_char_lower_char Let_def)

lemma lower_char_eq_y: "lower_char c = CHR ''y'' \<longleftrightarrow> c = CHR ''y'' \<or> c = CHR ''Y''"
proof -
  have "lower_char c = CHR ''y'' \<longleftrightarrow> (of_char (lower_char c) :: nat) = of_char CHR ''y''"
    by (simp only: of_char_eq_iff)
  also have "\<dots> \<longleftrightarrow> (of_char c :: nat) = 121 \<or> (of_char c :: nat) = 89"
    by (auto simp add: of_char_lower_char Let_def)
  also have "\<dots> \<longleftrightarrow> (of_char c :: nat) = of_char CHR ''y'' \<or> (of_char c :: nat) = of_char CHR ''Y''"
    by simp
  also have "\<dots> \<longleftrightarrow> c = CHR ''y'' \<or> c = CHR ''Y''"
    by (simp only: of_char_eq_iff)
  finally show ?thesis .
qed

lemma lower_char_eq_n: "lower_char c = CHR ''n'' \<longleftrightarrow> c = CHR ''n'' \<or> c = CHR ''N''"
proof -
  have "lower_char c = CHR ''n'' \<longleftrightarrow> (of_char (lower_char c) :: nat) = of_char CHR ''n''"
    by (simp only: of_char_eq_iff)
  also have "\<dots> \<longleftrightarrow> (of_char c :: nat) = 110 \<or> (of_char c :: nat) = 78"
    by (auto simp add: of_char_lower_char Let_def)
  also have "\<dots> \<longleftrightarrow> (of_char c :: nat) = of_char CHR ''n'' \<or> (of_char c :: nat) = of_char CHR ''N''"
    by simp
  also have "\<dots> \<longleftrightarrow> c = CHR ''n'' \<or> c = CHR ''N''"
    by (simp only: of_char_eq_iff)
  finally show ?thesis .
qed

lemma strip_keeps_head:
  assumes "\<not> isspace c"
  shows "\<exists>zs. rev (dropWhile isspace (rev (c # cs))) = c # zs"
proof -
  have "dropWhile isspace (rev cs @ [c]) =
          (if \<forall>x \<in> set (rev cs). isspace x then [c] else dropWhile isspace (rev cs) @ [c])"
    using assms by (simp add: dropWhile_append)
  then obtain ys where "dropWhile isspace (rev (c # cs)) = ys @ [c]"
    by (cases "\<forall>x \<in> set (rev cs). isspace x") auto
  then show ?thesis by simp
qed

lemma strip_lower_head:
  "strip (lower l) =
     (case dropWhile isspace l of
        [] \<Rightarrow> []
      | c # cs \<Rightarrow> lower_char c # tl (strip (lower l)))"
proof (cases "dropWhile isspace l")
  case Nil
  have d: "dropWhile isspace (map lower_char l) = map lower_char (dropWhile isspace l)"
    by (simp add: dropWhile_map comp_def)
  show ?thesis unfolding strip_def lower_def d Nil by simp
next
  case (Cons c cs)
  have d: "dropWhile isspace (map lower_char l) = map lower_char (dropWhile isspace l)"
    by (simp add: dropWhile_map comp_def)
  have "\<not> isspace c" using Cons by (metis hd_dropWhile list.sel(1) list.distinct(1))
  then have "\<not> isspace (lower_char c)" by simp
  from strip_keeps_head [OF this] obtain zs where
    "rev (dropWhile isspace (rev (lower_char c # map lower_char cs))) = lower_char c # zs" by blast
  then show ?thesis unfolding strip_def lower_def d Cons by simp
qed

lemma startswith_single: "startswith s [c] \<longleftrightarrow> (\<exists>cs. s = c # cs)"
  by (cases s) (auto simp add: startswith_def)

lemma startswith_strip_lower:
  "startswith (strip (lower l)) [k] \<longleftrightarrow>
     (\<exists>c cs. dropWhile isspace l = c # cs \<and> lower_char c = k)"
proof (cases "dropWhile isspace l")
  case Nil
  have "strip (lower l) = []"
    using strip_lower_head [of l] unfolding Nil by simp
  then show ?thesis unfolding Nil by (simp add: startswith_def)
next
  case (Cons c cs)
  have "strip (lower l) = lower_char c # tl (strip (lower l))"
    using strip_lower_head [of l] unfolding Cons by simp
  then have "startswith (strip (lower l)) [k] \<longleftrightarrow> lower_char c = k"
    by (metis startswith_single list.inject)
  then show ?thesis unfolding Cons by simp
qed

lemma confirmation_loop_step:
  assumes "stdin e (stdin_pos w) = Some l"
  shows "confirmation_loop e p dflt w =
           (case answer_spec dflt l of
              Some b \<Rightarrow> Some (Inr b, emit (Input p (Some l)) (w\<lparr>stdin_pos := stdin_pos w + 1\<rparr>))
            | None \<Rightarrow> confirmation_loop e p dflt
                       (emit (Print ''Invalid input. Please try again.'')
                          (emit (Input p (Some l)) (w\<lparr>stdin_pos := stdin_pos w + 1\<rparr>))))"
proof -
  have y: "startswith (strip (lower l)) ''y'' \<longleftrightarrow>
             (\<exists>c cs. dropWhile isspace l = c # cs \<and> (c = CHR ''y'' \<or> c = CHR ''Y''))"
    by (simp add: startswith_strip_lower lower_char_eq_y)
  have n: "startswith (strip (lower l)) ''n'' \<longleftrightarrow>
             (\<exists>c cs. dropWhile isspace l = c # cs \<and> (c = CHR ''n'' \<or> c = CHR ''N''))"
    by (simp add: startswith_strip_lower lower_char_eq_n)
  show ?thesis
  proof (cases "dropWhile isspace l")
    case Nil
    show ?thesis
    proof (cases "l = [] \<and> dflt \<noteq> None")
      case True
      then obtain b where "dflt = Some b" and "l = []" by auto
      then show ?thesis
        by (subst confirmation_loop.simps)
          (simp add: input_def answer_spec_def assms [unfolded \<open>l = []\<close>]
             startswith_def strip_def lower_def)
    next
      case False
      have a: "answer_spec dflt l = None"
        unfolding answer_spec_def Nil using False by auto
      from False Nil show ?thesis
        by (subst confirmation_loop.simps)
          (auto simp add: input_def assms y n a simp del: dropWhile_eq_Nil_conv)
    qed
  next
    case (Cons c cs)
    then have "l \<noteq> []" by auto
    then show ?thesis
      by (subst confirmation_loop.simps)
        (simp add: input_def assms y n answer_spec_def Cons)
  qed
qed

lemma confirmation_loop_eof:
  assumes "stdin e (stdin_pos w) = None"
  shows "confirmation_loop e p dflt w = Some (Inl EOFError, emit (Input p None) w)"
  by (subst confirmation_loop.simps) (simp add: input_def assms)

lemma confirmation_loop_accepts:
  assumes "\<forall>i<k. \<exists>l. stdin e (stdin_pos w + i) = Some l \<and> answer_spec dflt l = None"
    and "stdin e (stdin_pos w + k) = Some l" and "answer_spec dflt l = Some b"
  shows "confirmation_loop e p dflt w =
           Some (Inr b, w\<lparr>stdin_pos := stdin_pos w + k + 1,
                          trace := trace w @ reprompts e p (stdin_pos w) k @ [Input p (Some l)]\<rparr>)"
  using assms
proof (induction k arbitrary: w)
  case 0
  then show ?case by (simp add: confirmation_loop_step emit_def)
next
  case (Suc k)
  from Suc.prems(1) obtain l0 where l0: "stdin e (stdin_pos w) = Some l0" "answer_spec dflt l0 = None"
    by force
  let ?w = "emit (Print ''Invalid input. Please try again.'')
              (emit (Input p (Some l0)) (w\<lparr>stdin_pos := stdin_pos w + 1\<rparr>))"
  have pos: "stdin_pos ?w = Suc (stdin_pos w)" by (simp add: emit_def)
  have a: "\<forall>i<k. \<exists>l. stdin e (stdin_pos ?w + i) = Some l \<and> answer_spec dflt l = None"
  proof (intro allI impI)
    fix i assume "i < k"
    then have "Suc i < Suc k" by simp
    with Suc.prems(1) show "\<exists>l. stdin e (stdin_pos ?w + i) = Some l \<and> answer_spec dflt l = None"
      unfolding pos by (metis add_Suc_shift)
  qed
  have b: "stdin e (stdin_pos ?w + k) = Some l" using Suc.prems(2) unfolding pos by simp
  have "confirmation_loop e p dflt w = confirmation_loop e p dflt ?w"
    using l0 by (simp add: confirmation_loop_step)
  also have "\<dots> = Some (Inr b, ?w\<lparr>stdin_pos := stdin_pos ?w + k + 1,
                          trace := trace ?w @ reprompts e p (stdin_pos ?w) k @ [Input p (Some l)]\<rparr>)"
    by (rule Suc.IH [OF a b Suc.prems(3)])
  also have "\<dots> = Some (Inr b, w\<lparr>stdin_pos := stdin_pos w + Suc k + 1,
                          trace := trace w @ reprompts e p (stdin_pos w) (Suc k) @ [Input p (Some l)]\<rparr>)"
    by (simp add: emit_def l0)
  finally show ?case .
qed

lemma answer_spec_examples:
  "answer_spec d ''y'' = Some True" "answer_spec d ''Y'' = Some True"
  "answer_spec d ''yes'' = Some True" "answer_spec d ''  Yes '' = Some True"
  "answer_spec d ''n'' = Some False" "answer_spec d ''N'' = Some False"
  "answer_spec d ''no'' = Some False"
  "answer_spec (Some False) [] = Some False" "answer_spec None [] = None"
  "answer_spec d ''maybe'' = None" "answer_spec d ''  '' = None"
  by (simp_all add: answer_spec_def isspace_def)

text \<open>
  Claim C3. Let the next \<open>k\<close> lines of standard input be lines the specification
  rejects (neither starting, after leading whitespace, with \<open>y\<close>, \<open>Y\<close>, \<open>n\<close> or \<open>N\<close>, nor
  empty while a default is set), and let the line after them be one it accepts with
  answer \<open>b\<close>: \<open>True\<close> for \<open>y\<close>/\<open>Y\<close>, \<open>False\<close> for \<open>n\<close>/\<open>N\<close>, the default for the empty
  line. Then \<open>get_confirmation\<close> returns \<open>b\<close>, having read exactly these \<open>k + 1\<close> lines,
  each under the prompt, and having printed the notice after each rejected one. With
  \<open>k = 0\<close> this is the immediate answer, with \<open>k > 0\<close> the answer after re-prompting.
\<close>

theorem get_confirmation_answers:
  assumes "\<forall>i<k. \<exists>l. stdin e (stdin_pos w + i) = Some l \<and> answer_spec dflt l = None"
    and "stdin e (stdin_pos w + k) = Some l" and "answer_spec dflt l = Some b"
  shows "get_confirmation e prompt dflt w =
           Some (Inr b,
                 w\<lparr>stdin_pos := stdin_pos w + k + 1,
                   trace := trace w @ reprompts e (prompt_with_hint prompt dflt) (stdin_pos w) k
                              @ [Input (prompt_with_hint prompt dflt) (Some l)]\<rparr>)"
  unfolding get_confirmation_def by (rule confirmation_loop_accepts [OF assms])

theorem get_confirmation_answers_witness:
  "get_confirmation example_env ''Do you want to continue?'' (Some False) example_world =
     Some (Inr True,
           example_world\<lparr>stdin_pos := 2,
              trace := [Input ''Do you want to continue? [y/N] > '' (Some ''maybe''),
                        Print ''Invalid input. Please try again.'',
                        Input ''Do you want to continue? [y/N] > '' (Some ''y'')]\<rparr>)
   \<and> get_confirmation example_env ''Sure?'' None (example_world\<lparr>stdin_pos := 1\<rparr>) =
     Some (Inr True,
           example_world\<lparr>stdin_pos := 2, trace := [Input ''Sure? [y/n] > '' (Some ''y'')]\<rparr>)"
  using get_confirmation_answers
      [of 1 example_env example_world "Some False" "''y''" True "''Do you want to continue?''"]
    get_confirmation_answers
      [of 0 example_env "example_world\<lparr>stdin_pos := 1\<rparr>" None "''y''" True "''Sure?''"]
  by (simp add: example_env_def example_world_def answer_spec_def isspace_def
        prompt_with_hint_def)

section \<open>Discovery in natural order\<close>







text \<open>
  In a key, text and numbers alternate, starting with text: two keys never hold a
  number and a text at the same position.
\<close>

lemma natsort_split_alternates:
  "alternates (case cur of Str s \<Rightarrow> True | Num n \<Rightarrow> False) (natsort_split cur s)"
  by (induction cur s rule: natsort_split.induct) (auto split: chunk.splits)

lemma natsort_key_alternates: "alternates True (natsort_key s)"
  using natsort_split_alternates [of "Str []" s] by (simp add: natsort_key_def)


lemma example_discovery: "get_image_paths example_env ''pics'' = Inr example_paths"
  by code_simp




section \<open>The upload loop\<close>

lemma uploads_follow_checks_Nil: "uploads_follow_checks e before []"
  by (simp add: uploads_follow_checks_def)

lemma checks_decide_Nil: "checks_decide e before []"
  by (simp add: checks_decide_def)

lemma uploads_follow_checks_skip:
  assumes "uploads_follow_checks e (before @ [IsFile p b]) new"
  shows "uploads_follow_checks e before (IsFile p b # new)"
  unfolding uploads_follow_checks_def
proof (intro allI impI)
  fix pre f t d x post
  assume eq: "IsFile p b # new = pre @ ImageUpload f t d x # post"
  then obtain pre2 where pre: "pre = IsFile p b # pre2" and n: "new = pre2 @ ImageUpload f t d x # post"
    by (cases pre) auto
  from assms n obtain pre' q where
    "pre2 = pre' @ [IsFile q True]" "is_file e ((before @ [IsFile p b]) @ pre') q"
    "f = absolute (cwd e) q" "t = stem q" "d = stem q"
    unfolding uploads_follow_checks_def by blast
  then show "\<exists>pre' p. pre = pre' @ [IsFile p True] \<and> is_file e (before @ pre') p
                  \<and> f = absolute (cwd e) p \<and> t = stem p \<and> d = stem p"
    using pre by (intro exI [of _ "IsFile p b # pre'"] exI [of _ q]) simp
qed

lemma uploads_follow_checks_upload:
  assumes "uploads_follow_checks e (before @ [IsFile p True, ImageUpload (absolute (cwd e) p) (stem p) (stem p) r]) new"
    and "is_file e before p"
  shows "uploads_follow_checks e before
           (IsFile p True # ImageUpload (absolute (cwd e) p) (stem p) (stem p) r # new)"
  unfolding uploads_follow_checks_def
proof (intro allI impI)
  fix pre f t d x post
  let ?u = "ImageUpload (absolute (cwd e) p) (stem p) (stem p) r"
  assume eq: "IsFile p True # ?u # new = pre @ ImageUpload f t d x # post"
  then obtain pre1 where pre1: "pre = IsFile p True # pre1" and n1: "?u # new = pre1 @ ImageUpload f t d x # post"
    by (cases pre) auto
  show "\<exists>pre' p. pre = pre' @ [IsFile p True] \<and> is_file e (before @ pre') p
                  \<and> f = absolute (cwd e) p \<and> t = stem p \<and> d = stem p"
  proof (cases pre1)
    case Nil
    with n1 have "f = absolute (cwd e) p" "t = stem p" "d = stem p" by auto
    with pre1 Nil assms(2) show ?thesis
      by (intro exI [of _ "[]"] exI [of _ p]) simp
  next
    case (Cons a pre2)
    with n1 have a: "a = ?u" and n: "new = pre2 @ ImageUpload f t d x # post" by auto
    from assms(1) n obtain pre' q where
      "pre2 = pre' @ [IsFile q True]" "is_file e ((before @ [IsFile p True, ?u]) @ pre') q"
      "f = absolute (cwd e) q" "t = stem q" "d = stem q"
      unfolding uploads_follow_checks_def by blast
    then show ?thesis
      using pre1 Cons a by (intro exI [of _ "IsFile p True # ?u # pre'"] exI [of _ q]) simp
  qed
qed

lemma checks_decide_skip:
  assumes "checks_decide e (before @ [IsFile p b]) new"
    and "b = is_file e before p"
    and "b \<or> (\<forall>f t d x post'. new \<noteq> ImageUpload f t d x # post')"
  shows "checks_decide e before (IsFile p b # new)"
  unfolding checks_decide_def
proof (intro allI impI)
  fix pre q c post
  assume eq: "IsFile p b # new = pre @ IsFile q c # post"
  show "c = is_file e (before @ pre) q
        \<and> (\<not> c \<longrightarrow> (\<forall>f t d x post'. post \<noteq> ImageUpload f t d x # post'))"
  proof (cases pre)
    case Nil
    with eq have "q = p" "c = b" "post = new" by auto
    with assms(2,3) Nil show ?thesis by auto
  next
    case (Cons a pre2)
    with eq have a: "a = IsFile p b" and n: "new = pre2 @ IsFile q c # post" by auto
    from assms(1) n have "c = is_file e ((before @ [IsFile p b]) @ pre2) q
        \<and> (\<not> c \<longrightarrow> (\<forall>f t d x post'. post \<noteq> ImageUpload f t d x # post'))"
      unfolding checks_decide_def by blast
    with Cons a show ?thesis by simp
  qed
qed

lemma checks_decide_upload:
  assumes "checks_decide e (before @ [IsFile p True, ImageUpload f t d r]) new"
    and "is_file e before p"
  shows "checks_decide e before (IsFile p True # ImageUpload f t d r # new)"
  unfolding checks_decide_def
proof (intro allI impI)
  fix pre q c post
  assume eq: "IsFile p True # ImageUpload f t d r # new = pre @ IsFile q c # post"
  show "c = is_file e (before @ pre) q
        \<and> (\<not> c \<longrightarrow> (\<forall>f t d x post'. post \<noteq> ImageUpload f t d x # post'))"
  proof (cases pre)
    case Nil
    with eq have "q = p" "c = True" by auto
    with assms(2) Nil show ?thesis by auto
  next
    case (Cons a pre1)
    with eq have a: "a = IsFile p True" and n1: "ImageUpload f t d r # new = pre1 @ IsFile q c # post"
      by auto
    then obtain pre2 where p2: "pre1 = ImageUpload f t d r # pre2" and n: "new = pre2 @ IsFile q c # post"
      by (cases pre1) auto
    from assms(1) n have "c = is_file e ((before @ [IsFile p True, ImageUpload f t d r]) @ pre2) q
        \<and> (\<not> c \<longrightarrow> (\<forall>f t d x post'. post \<noteq> ImageUpload f t d x # post'))"
      unfolding checks_decide_def by blast
    with Cons a p2 show ?thesis by simp
  qed
qed

lemma upload_images_guarded:
  assumes "upload_images e tok ps ids0 w = (r, w')"
  shows "\<exists>new. trace w' = trace w @ new
           \<and> (\<forall>f t d x post. new \<noteq> ImageUpload f t d x # post)
           \<and> uploads_follow_checks e (trace w) new
           \<and> checks_decide e (trace w) new"
  using assms
proof (induction ps arbitrary: ids0 w)
  case Nil
  then have "trace w' = trace w @ []" by auto
  then show ?case
    by (intro exI [of _ "[]"]) (simp add: uploads_follow_checks_Nil checks_decide_Nil)
next
  case (Cons p ps)
  let ?ok = "is_file e (trace w) p"
  let ?w1 = "emit (IsFile p ?ok) w"
  have t1: "trace ?w1 = trace w @ [IsFile p ?ok]" by (simp add: emit_def)
  show ?case
  proof (cases ?ok)
    case False
    with Cons.prems have "upload_images e tok ps ids0 ?w1 = (r, w')" by (simp add: Let_def)
    from Cons.IH [OF this] obtain new where
      n: "trace w' = trace ?w1 @ new" "\<forall>f t d x post. new \<noteq> ImageUpload f t d x # post"
        "uploads_follow_checks e (trace ?w1) new" "checks_decide e (trace ?w1) new"
      by blast
    show ?thesis
    proof (intro exI [of _ "IsFile p ?ok # new"] conjI)
      show "trace w' = trace w @ IsFile p ?ok # new" using n(1) t1 by simp
      show "\<forall>f t d x post. IsFile p ?ok # new \<noteq> ImageUpload f t d x # post" by simp
      show "uploads_follow_checks e (trace w) (IsFile p ?ok # new)"
        using n(3) unfolding t1 by (rule uploads_follow_checks_skip)
      show "checks_decide e (trace w) (IsFile p ?ok # new)"
        using n(4) n(2) unfolding t1 by (intro checks_decide_skip) auto
    qed
  next
    case True
    let ?f = "absolute (cwd e) p"
    let ?r = "image_upload e (trace ?w1) tok ?f (stem p) (stem p)"
    let ?u = "ImageUpload ?f (stem p) (stem p) ?r"
    let ?w2 = "emit ?u ?w1"
    have t2: "trace ?w2 = trace w @ [IsFile p True, ?u]"
      using True by (simp add: emit_def)
    have base: "uploads_follow_checks e (trace w) (IsFile p True # ?u # [])"
      "checks_decide e (trace w) (IsFile p True # ?u # [])"
      using True
      by (auto intro!: uploads_follow_checks_upload checks_decide_upload
            uploads_follow_checks_Nil checks_decide_Nil)
    show ?thesis
    proof (cases "upload_id (?f, ?r)")
      case (Inl x)
      with Cons.prems True have "w' = ?w2"
        by (auto simp add: Let_def split: sum.splits)
      with t2 have "trace w' = trace w @ [IsFile p True, ?u]" by simp
      with base show ?thesis
        by (intro exI [of _ "[IsFile p True, ?u]"]) simp
    next
      case (Inr i)
      with Cons.prems True have "upload_images e tok ps (ids0 @ [i]) ?w2 = (r, w')"
        by (auto simp add: Let_def split: sum.splits)
      from Cons.IH [OF this] obtain new where
        n: "trace w' = trace ?w2 @ new" "\<forall>f t d x post. new \<noteq> ImageUpload f t d x # post"
          "uploads_follow_checks e (trace ?w2) new" "checks_decide e (trace ?w2) new"
        by blast
      show ?thesis
      proof (intro exI [of _ "IsFile p True # ?u # new"] conjI)
        show "trace w' = trace w @ IsFile p True # ?u # new" using n(1) t2 by simp
        show "\<forall>f t d x post. IsFile p True # ?u # new \<noteq> ImageUpload f t d x # post" by simp
        show "uploads_follow_checks e (trace w) (IsFile p True # ?u # new)"
          using n(3) True unfolding t2 by (intro uploads_follow_checks_upload) auto
        show "checks_decide e (trace w) (IsFile p True # ?u # new)"
          using n(4) True unfolding t2 by (intro checks_decide_upload) auto
      qed
    qed
  qed
qed

lemma file_checks_append [simp]: "file_checks (a @ b) = file_checks a @ file_checks b"
  by (induction a rule: file_checks.induct) simp_all

lemma upload_calls_append [simp]: "upload_calls (a @ b) = upload_calls a @ upload_calls b"
  by (induction a rule: upload_calls.induct) simp_all

lemma album_calls_append [simp]: "album_calls (a @ b) = album_calls a @ album_calls b"
  by (induction a rule: album_calls.induct) simp_all

lemma upload_images_trace:
  assumes "upload_images e tok ps ids0 w = (r, w')"
  shows "\<exists>new. w' = w\<lparr>trace := trace w @ new\<rparr>
           \<and> album_calls new = []
           \<and> map fst (upload_calls new) =
               map (absolute (cwd e)) (map fst (filter snd (file_checks new)))
           \<and> (\<forall>ids. r = Inr ids \<longrightarrow>
                 map fst (file_checks new) = ps
                 \<and> (\<exists>got. ids = ids0 @ got \<and> map upload_id (upload_calls new) = map Inr got))"
  using assms
proof (induction ps arbitrary: ids0 w)
  case Nil
  then have "w' = w\<lparr>trace := trace w @ []\<rparr>" "r = Inr ids0" by auto
  then show ?case by (intro exI [of _ "[]"]) simp
next
  case (Cons p ps)
  let ?ok = "is_file e (trace w) p"
  let ?w1 = "emit (IsFile p ?ok) w"
  show ?case
  proof (cases ?ok)
    case False
    with Cons.prems have "upload_images e tok ps ids0 ?w1 = (r, w')" by (simp add: Let_def)
    from Cons.IH [OF this] obtain new where
      n: "w' = ?w1\<lparr>trace := trace ?w1 @ new\<rparr>" "album_calls new = []"
        "map fst (upload_calls new) = map (absolute (cwd e)) (map fst (filter snd (file_checks new)))"
        "\<forall>ids. r = Inr ids \<longrightarrow> map fst (file_checks new) = ps
           \<and> (\<exists>got. ids = ids0 @ got \<and> map upload_id (upload_calls new) = map Inr got)"
      by blast
    show ?thesis
      using n False by (intro exI [of _ "IsFile p False # new"]) (simp add: emit_def)
  next
    case True
    let ?f = "absolute (cwd e) p"
    let ?r = "image_upload e (trace ?w1) tok ?f (stem p) (stem p)"
    let ?w2 = "emit (ImageUpload ?f (stem p) (stem p) ?r) ?w1"
    have w2: "?w2 = w\<lparr>trace := trace w @ [IsFile p True, ImageUpload ?f (stem p) (stem p) ?r]\<rparr>"
      using True by (simp add: emit_def)
    show ?thesis
    proof (cases "upload_id (?f, ?r)")
      case (Inl x)
      with Cons.prems True have "r = Inl x" "w' = ?w2"
        by (auto simp add: Let_def split: sum.splits)
      then show ?thesis
        using w2
        by (intro exI [of _ "[IsFile p True, ImageUpload ?f (stem p) (stem p) ?r]"]) simp
    next
      case (Inr i)
      with Cons.prems True have "upload_images e tok ps (ids0 @ [i]) ?w2 = (r, w')"
        by (auto simp add: Let_def split: sum.splits)
      from Cons.IH [OF this] obtain new where
        n: "w' = ?w2\<lparr>trace := trace ?w2 @ new\<rparr>" "album_calls new = []"
          "map fst (upload_calls new) = map (absolute (cwd e)) (map fst (filter snd (file_checks new)))"
          "\<forall>ids. r = Inr ids \<longrightarrow> map fst (file_checks new) = ps
             \<and> (\<exists>got. ids = (ids0 @ [i]) @ got \<and> map upload_id (upload_calls new) = map Inr got)"
        by blast
      show ?thesis
      proof (intro exI [of _ "IsFile p True # ImageUpload ?f (stem p) (stem p) ?r # new"] conjI allI impI)
        show "w' = w\<lparr>trace := trace w @ IsFile p True # ImageUpload ?f (stem p) (stem p) ?r # new\<rparr>"
          using n(1) w2 by simp
        show "album_calls (IsFile p True # ImageUpload ?f (stem p) (stem p) ?r # new) = []"
          using n(2) by simp
        show "map fst (upload_calls (IsFile p True # ImageUpload ?f (stem p) (stem p) ?r # new)) =
               map (absolute (cwd e))
                 (map fst (filter snd (file_checks (IsFile p True # ImageUpload ?f (stem p) (stem p) ?r # new))))"
          using n(3) by simp
      next
        fix ids assume "r = Inr ids"
        with n(4) obtain got where g: "map fst (file_checks new) = ps" "ids = (ids0 @ [i]) @ got"
          "map upload_id (upload_calls new) = map Inr got" by blast
        show "map fst (file_checks (IsFile p True # ImageUpload ?f (stem p) (stem p) ?r # new)) = p # ps"
          using g(1) by simp
        show "\<exists>got. ids = ids0 @ got \<and>
                map upload_id (upload_calls (IsFile p True # ImageUpload ?f (stem p) (stem p) ?r # new))
                  = map Inr got"
          using g(2,3) Inr by (intro exI [of _ "i # got"]) simp
      qed
    qed
  qed
qed


lemma split_in_left:
  assumes "new @ extra = pre @ X # post" and "X \<notin> set extra"
  shows "\<exists>post'. new = pre @ X # post' \<and> post = post' @ extra"
proof -
  from assms(1) obtain us where
    "(new = pre @ us \<and> us @ extra = X # post) \<or> (new @ us = pre \<and> extra = us @ X # post)"
    unfolding append_eq_append_conv2 by blast
  then show ?thesis
  proof
    assume h: "new = pre @ us \<and> us @ extra = X # post"
    show ?thesis
    proof (cases us)
      case Nil
      with h assms(2) show ?thesis by auto
    next
      case (Cons a us')
      with h show ?thesis by auto
    qed
  next
    assume "new @ us = pre \<and> extra = us @ X # post"
    with assms(2) show ?thesis by auto
  qed
qed

lemma uploads_follow_checks_append:
  assumes "uploads_follow_checks e before new"
    and "\<forall>f t d x. ImageUpload f t d x \<notin> set extra"
  shows "uploads_follow_checks e before (new @ extra)"
  unfolding uploads_follow_checks_def
proof (intro allI impI)
  fix pre f t d x post
  assume "new @ extra = pre @ ImageUpload f t d x # post"
  from split_in_left [OF this] assms(2) obtain post' where "new = pre @ ImageUpload f t d x # post'"
    by blast
  with assms(1) show "\<exists>pre' p. pre = pre' @ [IsFile p True] \<and> is_file e (before @ pre') p
                  \<and> f = absolute (cwd e) p \<and> t = stem p \<and> d = stem p"
    unfolding uploads_follow_checks_def by blast
qed

lemma checks_decide_append:
  assumes "checks_decide e before new"
    and "\<forall>p b. IsFile p b \<notin> set extra"
    and "\<forall>f t d x. ImageUpload f t d x \<notin> set extra"
  shows "checks_decide e before (new @ extra)"
  unfolding checks_decide_def
proof (intro allI impI)
  fix pre p b post
  assume "new @ extra = pre @ IsFile p b # post"
  from split_in_left [OF this] assms(2) obtain post' where
    n: "new = pre @ IsFile p b # post'" and p: "post = post' @ extra"
    by blast
  from assms(1) n have c: "b = is_file e (before @ pre) p"
    and u: "\<not> b \<longrightarrow> (\<forall>f t d x post''. post' \<noteq> ImageUpload f t d x # post'')"
    unfolding checks_decide_def by blast+
  have "\<forall>f t d x post''. post \<noteq> ImageUpload f t d x # post''" if "\<not> b"
  proof (intro allI notI)
    fix f t d x post''
    assume eq: "post = ImageUpload f t d x # post''"
    show False
    proof (cases post')
      case Nil
      with p eq assms(3) show False by (metis append_Nil list.set_intros(1))
    next
      case (Cons a rest)
      with p eq have "post' = ImageUpload f t d x # rest" by simp
      with u that show False by blast
    qed
  qed
  with c show "b = is_file e (before @ pre) p
        \<and> (\<not> b \<longrightarrow> (\<forall>f t d x post'. post \<noteq> ImageUpload f t d x # post'))"
    by blast
qed

lemma album_calls_none:
  "\<forall>ids t d p r. AlbumCreate ids t d p r \<notin> set tr \<Longrightarrow> album_calls tr = []"
proof (induction tr rule: album_calls.induct)
  case (2 ids t d p r tr)
  then have "AlbumCreate ids t d p r \<notin> set (AlbumCreate ids t d p r # tr)" by blast
  then show ?case by simp
qed simp_all

lemma imgur_upload_trace:
  assumes "imgur_upload e image_paths config title pub w = (r, w')"
  shows "\<exists>seg extra. trace w' = trace w @ seg @ extra
           \<and> (\<forall>p b. IsFile p b \<notin> set extra) \<and> (\<forall>f t d x. ImageUpload f t d x \<notin> set extra)
           \<and> uploads_follow_checks e (trace w) seg \<and> checks_decide e (trace w) seg
           \<and> album_calls seg = []
           \<and> map fst (upload_calls seg) =
               map (absolute (cwd e)) (map fst (filter snd (file_checks seg)))
           \<and> (r = Inr () \<longrightarrow> album_calls extra \<noteq> [])
           \<and> (\<forall>ids \<in> set (album_calls extra).
                 album_calls extra = [ids]
                 \<and> map fst (file_checks seg) = image_paths
                 \<and> map upload_id (upload_calls seg) = map Inr ids)"
proof -
  obtain r1 w1 where u: "upload_images e (imgur_access_token config) image_paths [] w = (r1, w1)"
    by (cases "upload_images e (imgur_access_token config) image_paths [] w")
  from upload_images_trace [OF u] obtain seg where
    s: "w1 = w\<lparr>trace := trace w @ seg\<rparr>" "album_calls seg = []"
      "map fst (upload_calls seg) = map (absolute (cwd e)) (map fst (filter snd (file_checks seg)))"
      "\<forall>ids. r1 = Inr ids \<longrightarrow> map fst (file_checks seg) = image_paths
           \<and> (\<exists>got. ids = [] @ got \<and> map upload_id (upload_calls seg) = map Inr got)"
    by blast
  from upload_images_guarded [OF u] s(1) have
    g: "uploads_follow_checks e (trace w) seg" "checks_decide e (trace w) seg"
    by auto
  show ?thesis
  proof (cases r1)
    case (Inl x)
    with u assms have "w' = w1" "r = Inl x" by (auto simp add: imgur_upload_def)
    with s g show ?thesis
      by (intro exI [of _ seg] exI [of _ "[]"]) simp
  next
    case (Inr ids)
    with s(4) have f: "map fst (file_checks seg) = image_paths"
      and i: "map upload_id (upload_calls seg) = map Inr ids" by auto
    let ?privacy = "if \<not> pub then ''hidden'' else ''public''"
    let ?a = "album_create e (trace w1) (imgur_access_token config) ids title [] ?privacy"
    let ?ev = "AlbumCreate ids title [] ?privacy ?a"
    have "\<exists>extra. trace w' = trace w1 @ ?ev # extra \<and> (\<forall>ev \<in> set extra. \<exists>s j. ev = Print s \<or> ev = PrintAlbumId j \<or> ev = PrintAlbumUrl j)
            \<and> (r = Inr () \<or> (\<exists>x. r = Inl x))"
      using assms u Inr
      by (cases r) (auto simp add: imgur_upload_def Let_def emit_def split: sum.splits)
    then obtain extra where
      e: "trace w' = trace w1 @ ?ev # extra"
        "\<forall>ev \<in> set extra. \<exists>s j. ev = Print s \<or> ev = PrintAlbumId j \<or> ev = PrintAlbumUrl j"
      by blast
    from e(2) have n: "\<forall>p b. IsFile p b \<notin> set extra" "\<forall>f t d x. ImageUpload f t d x \<notin> set extra"
      "\<forall>ids t d p r. AlbumCreate ids t d p r \<notin> set extra"
      by fastforce+
    from n(3) have a: "album_calls extra = []"
      by (rule album_calls_none)
    show ?thesis
      using e(1) s(1,2,3) g f i n(1,2) a
      by (intro exI [of _ seg] exI [of _ "?ev # extra"]) simp
  qed
qed

lemma file_checks_none:
  "\<forall>p b. IsFile p b \<notin> set tr \<Longrightarrow> file_checks tr = []"
proof (induction tr rule: file_checks.induct)
  case (2 p b tr)
  then have "IsFile p b \<notin> set (IsFile p b # tr)" by blast
  then show ?case by simp
qed simp_all

lemma upload_calls_none:
  "\<forall>f t d x. ImageUpload f t d x \<notin> set tr \<Longrightarrow> upload_calls tr = []"
proof (induction tr rule: upload_calls.induct)
  case (2 f t d r tr)
  then have "ImageUpload f t d r \<notin> set (ImageUpload f t d r # tr)" by blast
  then show ?case by simp
qed simp_all

lemma example_upload:
  "imgur_upload example_env example_paths Config_default (Some ''Chapter 1'') False example_world
     = (Inr (), example_world\<lparr>trace := example_upload_trace\<rparr>)"
  by code_simp

text \<open>
  Claim C2. In every run of \<open>imgur_upload\<close>, when an album is created it is created
  once, after every given path has been checked in the given order; the files uploaded
  are, in that order, the paths whose check found a regular file; and the identifiers
  given to the album creation are exactly the identifiers the uploads returned, in the
  order of the uploads. A run that returns normally has created the album.
\<close>

theorem album_ids_in_upload_order:
  assumes "imgur_upload e image_paths config title pub w = (r, w')"
  shows "\<exists>new. trace w' = trace w @ new
           \<and> (r = Inr () \<longrightarrow> album_calls new \<noteq> [])
           \<and> (\<forall>ids \<in> set (album_calls new).
                 album_calls new = [ids]
                 \<and> map fst (file_checks new) = image_paths
                 \<and> map fst (upload_calls new) =
                     map (absolute (cwd e)) (map fst (filter snd (file_checks new)))
                 \<and> map upload_id (upload_calls new) = map Inr ids)"
proof -
  from imgur_upload_trace [OF assms] obtain seg extra where
    t: "trace w' = trace w @ seg @ extra"
    and n: "\<forall>p b. IsFile p b \<notin> set extra" "\<forall>f t d x. ImageUpload f t d x \<notin> set extra"
    and s: "album_calls seg = []"
      "map fst (upload_calls seg) = map (absolute (cwd e)) (map fst (filter snd (file_checks seg)))"
      "r = Inr () \<longrightarrow> album_calls extra \<noteq> []"
      "\<forall>ids \<in> set (album_calls extra).
                 album_calls extra = [ids]
                 \<and> map fst (file_checks seg) = image_paths
                 \<and> map upload_id (upload_calls seg) = map Inr ids"
    by blast
  have x: "file_checks extra = []" "upload_calls extra = []"
    using n by (simp_all add: file_checks_none upload_calls_none)
  show ?thesis
    using t s x by (intro exI [of _ "seg @ extra"]) simp
qed

theorem album_ids_in_upload_order_witness:
  "imgur_upload example_env example_paths Config_default (Some ''Chapter 1'') False example_world
     = (Inr (), example_world\<lparr>trace := example_upload_trace\<rparr>)
   \<and> album_calls example_upload_trace = [[JStr ''a'', JStr ''b'', JStr ''c2'', JStr ''c10'']]
   \<and> map fst (file_checks example_upload_trace) = example_paths
   \<and> map fst (upload_calls example_upload_trace) =
       [''/home/u/pics/a.png'', ''/home/u/pics/b.jpg'', ''/home/u/pics/c2.gif'', ''/home/u/pics/c10.gif'']
   \<and> map upload_id (upload_calls example_upload_trace) =
       map Inr [JStr ''a'', JStr ''b'', JStr ''c2'', JStr ''c10'']"
proof -
  from album_ids_in_upload_order [OF example_upload] obtain new where
    n: "trace (example_world\<lparr>trace := example_upload_trace\<rparr>) = trace example_world @ new"
    and a: "album_calls new \<noteq> []"
    and c: "\<forall>ids \<in> set (album_calls new).
                 album_calls new = [ids]
                 \<and> map fst (file_checks new) = example_paths
                 \<and> map fst (upload_calls new) =
                     map (absolute (cwd example_env)) (map fst (filter snd (file_checks new)))
                 \<and> map upload_id (upload_calls new) = map Inr ids"
    by blast
  from n have new: "new = example_upload_trace" by (simp add: example_world_def)
  have ac: "album_calls example_upload_trace = [[JStr ''a'', JStr ''b'', JStr ''c2'', JStr ''c10'']]"
    by (simp add: example_upload_trace_def)
  from c ac new have
    "map fst (file_checks example_upload_trace) = example_paths
     \<and> map upload_id (upload_calls example_upload_trace) =
         map Inr [JStr ''a'', JStr ''b'', JStr ''c2'', JStr ''c10'']"
    by simp
  moreover have "map fst (upload_calls example_upload_trace) =
       [''/home/u/pics/a.png'', ''/home/u/pics/b.jpg'', ''/home/u/pics/c2.gif'', ''/home/u/pics/c10.gif'']"
    by (simp add: example_upload_trace_def)
  ultimately show ?thesis using example_upload ac by simp
qed

text \<open>
  Claim C9. Discovery does not look at file types: its result does not depend on the
  file-type oracle, and every listed entry with an image suffix is returned, regular
  file or not. In every run of \<open>imgur_upload\<close>, each upload comes directly after a check
  of the same path that found a regular file, each check reports the file type at that
  moment, no upload follows a check that did not find a regular file, and the uploads
  are exactly those of the paths whose check succeeded.
\<close>

theorem non_files_listed_not_uploaded:
  "(\<forall>f. get_image_paths (e\<lparr>is_file := f\<rparr>) d = get_image_paths e d)
   \<and> (iterdir e d = Some entries \<and> p \<in> set entries \<and> lower (suffix p) \<in> set image_suffixes \<longrightarrow>
        (\<exists>ps. get_image_paths e d = Inr ps \<and> p \<in> set ps))
   \<and> (imgur_upload e image_paths config title pub w = (r, w') \<longrightarrow>
        (\<exists>new. trace w' = trace w @ new
           \<and> uploads_follow_checks e (trace w) new
           \<and> checks_decide e (trace w) new
           \<and> map fst (upload_calls new) =
               map (absolute (cwd e)) (map fst (filter snd (file_checks new)))))"
proof (intro conjI impI allI)
  show "get_image_paths (e\<lparr>is_file := f\<rparr>) d = get_image_paths e d" for f
    by (simp add: get_image_paths_def)
next
  assume "iterdir e d = Some entries \<and> p \<in> set entries \<and> lower (suffix p) \<in> set image_suffixes"
  then show "\<exists>ps. get_image_paths e d = Inr ps \<and> p \<in> set ps"
    by (simp add: get_image_paths_def natsorted_def)
next
  assume "imgur_upload e image_paths config title pub w = (r, w')"
  from imgur_upload_trace [OF this] obtain seg extra where
    t: "trace w' = trace w @ seg @ extra"
    and n: "\<forall>p b. IsFile p b \<notin> set extra" "\<forall>f t d x. ImageUpload f t d x \<notin> set extra"
    and g: "uploads_follow_checks e (trace w) seg" "checks_decide e (trace w) seg"
    and s: "map fst (upload_calls seg) = map (absolute (cwd e)) (map fst (filter snd (file_checks seg)))"
    by blast
  have x: "file_checks extra = []" "upload_calls extra = []"
    using n by (simp_all add: file_checks_none upload_calls_none)
  show "\<exists>new. trace w' = trace w @ new
           \<and> uploads_follow_checks e (trace w) new
           \<and> checks_decide e (trace w) new
           \<and> map fst (upload_calls new) =
               map (absolute (cwd e)) (map fst (filter snd (file_checks new)))"
    using t s x uploads_follow_checks_append [OF g(1) n(2)] checks_decide_append [OF g(2) n]
    by (intro exI [of _ "seg @ extra"]) simp
qed

theorem non_files_listed_not_uploaded_witness:
  "get_image_paths example_env ''pics'' = Inr example_paths
   \<and> ''pics/photo.jpg'' \<in> set example_paths
   \<and> imgur_upload example_env example_paths Config_default (Some ''Chapter 1'') False example_world
       = (Inr (), example_world\<lparr>trace := example_upload_trace\<rparr>)
   \<and> uploads_follow_checks example_env [] example_upload_trace
   \<and> checks_decide example_env [] example_upload_trace
   \<and> (''pics/photo.jpg'', False) \<in> set (file_checks example_upload_trace)
   \<and> ''/home/u/pics/photo.jpg'' \<notin> set (map fst (upload_calls example_upload_trace))"
proof -
  have i: "iterdir example_env ''pics'' =
             Some [''pics/b.jpg'', ''pics/photo.jpg'', ''pics/a.png'',
                   ''pics/c10.gif'', ''pics/notes.txt'', ''pics/c2.gif'']"
    by (simp add: example_env_def)
  have m: "''pics/photo.jpg'' \<in> set [''pics/b.jpg'', ''pics/photo.jpg'', ''pics/a.png'',
                   ''pics/c10.gif'', ''pics/notes.txt'', ''pics/c2.gif'']"
    by simp
  have x: "lower (suffix ''pics/photo.jpg'') \<in> set image_suffixes"
    by (simp add: suffix_def name_def rfind_def lower_def lower_char_def image_suffixes_def)
  note inst = non_files_listed_not_uploaded
    [of example_env "''pics''" "[''pics/b.jpg'', ''pics/photo.jpg'', ''pics/a.png'',
                   ''pics/c10.gif'', ''pics/notes.txt'', ''pics/c2.gif'']" "''pics/photo.jpg''"
        example_paths Config_default "Some ''Chapter 1''" False example_world
        "Inr ()" "example_world\<lparr>trace := example_upload_trace\<rparr>"]
  from inst i m x example_discovery have d: "''pics/photo.jpg'' \<in> set example_paths"
    by auto
  from inst example_upload obtain new where
    n: "trace (example_world\<lparr>trace := example_upload_trace\<rparr>) = trace example_world @ new"
    and g: "uploads_follow_checks example_env (trace example_world) new"
      "checks_decide example_env (trace example_world) new"
    by blast
  from n have new: "new = example_upload_trace" by (simp add: example_world_def)
  have t0: "trace example_world = []" by (simp add: example_world_def)
  have c: "(''pics/photo.jpg'', False) \<in> set (file_checks example_upload_trace)"
    "''/home/u/pics/photo.jpg'' \<notin> set (map fst (upload_calls example_upload_trace))"
    by (simp_all add: example_upload_trace_def)
  show ?thesis
    using example_discovery d example_upload g c unfolding new t0 by simp
qed

lemma upload_images_failure_calls:
  assumes "upload_images e tok ps ids0 w = (Inl x, w')"
  shows "\<exists>new. trace w' = trace w @ new \<and> list_ex is_network_call new"
  using assms
proof (induction ps arbitrary: ids0 w)
  case Nil
  then show ?case by simp
next
  case (Cons p ps)
  let ?ok = "is_file e (trace w) p"
  let ?w1 = "emit (IsFile p ?ok) w"
  have t1: "trace ?w1 = trace w @ [IsFile p ?ok]" by (simp add: emit_def)
  show ?case
  proof (cases ?ok)
    case False
    with Cons.prems have "upload_images e tok ps ids0 ?w1 = (Inl x, w')" by (simp add: Let_def)
    from Cons.IH [OF this] obtain new where "trace w' = trace ?w1 @ new" "list_ex is_network_call new"
      by blast
    then show ?thesis
      unfolding t1 by (intro exI [of _ "IsFile p ?ok # new"]) simp
  next
    case True
    let ?f = "absolute (cwd e) p"
    let ?r = "image_upload e (trace ?w1) tok ?f (stem p) (stem p)"
    let ?u = "ImageUpload ?f (stem p) (stem p) ?r"
    let ?w2 = "emit ?u ?w1"
    have t2: "trace ?w2 = trace w @ [IsFile p True, ?u]"
      using True by (simp add: emit_def)
    show ?thesis
    proof (cases "upload_id (?f, ?r)")
      case (Inl y)
      with Cons.prems True have "w' = ?w2"
        by (auto simp add: Let_def split: sum.splits)
      with t2 show ?thesis
        by (intro exI [of _ "[IsFile p True, ?u]"]) simp
    next
      case (Inr i)
      with Cons.prems True have "upload_images e tok ps (ids0 @ [i]) ?w2 = (Inl x, w')"
        by (auto simp add: Let_def split: sum.splits)
      from Cons.IH [OF this] obtain new where "trace w' = trace ?w2 @ new" "list_ex is_network_call new"
        by blast
      then show ?thesis
        unfolding t2 by (intro exI [of _ "IsFile p True # ?u # new"]) simp
    qed
  qed
qed

lemma imgur_upload_calls_network:
  assumes "imgur_upload e image_paths config title pub w = (r, w')"
  shows "\<exists>new. trace w' = trace w @ new \<and> list_ex is_network_call new"
proof -
  obtain r1 w1 where u: "upload_images e (imgur_access_token config) image_paths [] w = (r1, w1)"
    by (cases "upload_images e (imgur_access_token config) image_paths [] w")
  show ?thesis
  proof (cases r1)
    case (Inl x)
    with u assms have "w' = w1" by (simp add: imgur_upload_def)
    with upload_images_failure_calls [OF u [unfolded Inl]] show ?thesis by simp
  next
    case (Inr ids)
    from upload_images_trace [OF u] obtain seg where s: "trace w1 = trace w @ seg" by auto
    let ?privacy = "if \<not> pub then ''hidden'' else ''public''"
    let ?a = "album_create e (trace w1) (imgur_access_token config) ids title [] ?privacy"
    let ?ev = "AlbumCreate ids title [] ?privacy ?a"
    have "\<exists>extra. trace w' = trace w1 @ ?ev # extra"
      using assms u Inr
      by (auto simp add: imgur_upload_def Let_def emit_def split: sum.splits)
    then obtain extra where "trace w' = trace w1 @ ?ev # extra" by blast
    with s show ?thesis
      by (intro exI [of _ "seg @ ?ev # extra"]) simp
  qed
qed

section \<open>Exits before the prompt\<close>

lemma set_access_token_effect:
  assumes "set_access_token a c w = (r, w1)"
  shows "trace w1 = trace w \<and> stdin_pos w1 = stdin_pos w \<and> (\<forall>x. r = Inl x \<longrightarrow> x = OSError)"
  using assms
  by (auto simp add: set_access_token_def to_json_file_def split: option.splits if_splits)

lemma process_early_exit:
  assumes scp: "\<not> show_config_path a"
    and ud: "\<And>c w2. upload_directory e a c w2 = Some (Inl (SystemExit 1), emit (Print msg) w2)"
    and msg: "startswith msg ''Error:''"
  shows "\<exists>w' new. process e a w = Some (1, w')
           \<and> trace w' = trace w @ new \<and> stdin_pos w' = stdin_pos w
           \<and> list_ex is_error_message new
           \<and> \<not> list_ex is_prompt new \<and> \<not> list_ex is_network_call new
           \<and> (\<forall>c c' w2. load_config w = (Inr c, w) \<and> set_access_token a c w = (Inr c', w2) \<longrightarrow>
                 new = [Print msg])"
proof -
  obtain r w1 where l: "load_config w = (r, w1)" by (cases "load_config w")
  from load_config_effect [OF l] consider
    (ok) c where "r = Inr c" "w1 = w"
    | (uncaught) x where "r = Inl x" "\<forall>n. x \<noteq> SystemExit n" "w1 = w"
    | (caught) x where "r = Inl (SystemExit 1)"
        "w1 = emit (PrintExn x) (emit (Print ''Error: Could not read configuration file.'') w)"
    by blast
  then show ?thesis
  proof cases
    case ok
    obtain r2 w2 where s: "set_access_token a c w = (r2, w2)"
      by (cases "set_access_token a c w")
    note eff = set_access_token_effect [OF s]
    show ?thesis
    proof (cases r2)
      case (Inl x)
      with eff have "x = OSError" by simp
      with Inl s l ok scp eff show ?thesis
        by (simp add: process_def main_def emit_def startswith_def)
    next
      case (Inr c')
      with s l ok scp eff msg show ?thesis
        by (simp add: process_def main_def ud) (simp add: emit_def)
    qed
  next
    case uncaught
    with l scp show ?thesis
      by (cases x) (auto simp add: process_def main_def emit_def)
  next
    case caught
    with l scp show ?thesis
      by (simp add: process_def main_def emit_def startswith_def)
  qed
qed

text \<open>
  Claim C8. When the directory argument does not denote a directory, the process ends
  with exit status 1, having printed an error report, without reading standard input,
  without showing a prompt and without any call to the Imgur client. When the
  configuration was loaded (and, if a token was given, saved), the one line printed is
  the error that the path is not a directory; otherwise the report is that of the
  failure met before.
\<close>

theorem not_a_directory_exits:
  assumes "\<not> show_config_path a" and "dir_path a = Some d" and "\<not> is_dir e d"
  shows "\<exists>w' new. process e a w = Some (1, w')
           \<and> trace w' = trace w @ new \<and> stdin_pos w' = stdin_pos w
           \<and> list_ex is_error_message new
           \<and> \<not> list_ex is_prompt new \<and> \<not> list_ex is_network_call new
           \<and> (\<forall>c c' w2. load_config w = (Inr c, w) \<and> set_access_token a c w = (Inr c', w2) \<longrightarrow>
                 new = [Print ''Error: The given path is not a directory.''])"
proof (rule process_early_exit)
  show "\<not> show_config_path a" by (rule assms(1))
  show "upload_directory e a c w2 =
          Some (Inl (SystemExit 1), emit (Print ''Error: The given path is not a directory.'') w2)"
    for c w2
    using assms by (simp add: upload_directory_def)
  show "startswith ''Error: The given path is not a directory.'' ''Error:''"
    by (simp add: startswith_def)
qed

theorem not_a_directory_exits_witness:
  "(\<exists>w' new. process example_env (example_args\<lparr>dir_path := Some ''pics/a.png''\<rparr>) example_world
                  = Some (1, w')
           \<and> trace w' = trace example_world @ new \<and> stdin_pos w' = stdin_pos example_world
           \<and> list_ex is_error_message new
           \<and> \<not> list_ex is_prompt new \<and> \<not> list_ex is_network_call new
           \<and> (\<forall>c c' w2. load_config example_world = (Inr c, example_world)
                  \<and> set_access_token (example_args\<lparr>dir_path := Some ''pics/a.png''\<rparr>) c example_world
                      = (Inr c', w2) \<longrightarrow>
                 new = [Print ''Error: The given path is not a directory.'']))
   \<and> process example_env (example_args\<lparr>dir_path := Some ''pics/a.png''\<rparr>) example_world =
       Some (1, example_world\<lparr>trace := [Print ''Error: The given path is not a directory.'']\<rparr>)"
proof
  show "\<exists>w' new. process example_env (example_args\<lparr>dir_path := Some ''pics/a.png''\<rparr>) example_world
                  = Some (1, w')
           \<and> trace w' = trace example_world @ new \<and> stdin_pos w' = stdin_pos example_world
           \<and> list_ex is_error_message new
           \<and> \<not> list_ex is_prompt new \<and> \<not> list_ex is_network_call new
           \<and> (\<forall>c c' w2. load_config example_world = (Inr c, example_world)
                  \<and> set_access_token (example_args\<lparr>dir_path := Some ''pics/a.png''\<rparr>) c example_world
                      = (Inr c', w2) \<longrightarrow>
                 new = [Print ''Error: The given path is not a directory.''])"
    by (rule not_a_directory_exits [where d = "''pics/a.png''"])
      (simp_all add: example_args_def example_env_def)
  show "process example_env (example_args\<lparr>dir_path := Some ''pics/a.png''\<rparr>) example_world =
       Some (1, example_world\<lparr>trace := [Print ''Error: The given path is not a directory.'']\<rparr>)"
    by (simp add: process_def main_def load_config_def exists_def set_access_token_def upload_directory_def
        example_env_def example_args_def example_world_def emit_def)
qed

lemma get_image_paths_none:
  assumes "iterdir e d = Some entries"
    and "\<forall>p \<in> set entries. lower (suffix p) \<notin> set image_suffixes"
  shows "get_image_paths e d = Inr []"
  using assms by (simp add: get_image_paths_def natsorted_def filter_empty_conv)

text \<open>
  Claim C7. When the directory lists no entry with an image extension (it is empty, or
  holds only other files), the process ends with exit status 1, having printed an error
  report, without a prompt and without any call to the Imgur client. When the
  configuration was loaded (and, if a token was given, saved), the one line printed is
  the error that the directory contains no images. Since every run of \<open>imgur_upload\<close>
  calls the client, \<open>imgur_upload\<close> was not run.
\<close>

theorem no_images_exits:
  assumes "\<not> show_config_path a" and "dir_path a = Some d" and "is_dir e d"
    and "iterdir e d = Some entries"
    and "\<forall>p \<in> set entries. lower (suffix p) \<notin> set image_suffixes"
  shows "(\<exists>w' new. process e a w = Some (1, w')
           \<and> trace w' = trace w @ new \<and> stdin_pos w' = stdin_pos w
           \<and> list_ex is_error_message new
           \<and> \<not> list_ex is_prompt new \<and> \<not> list_ex is_network_call new
           \<and> (\<forall>c c' w2. load_config w = (Inr c, w) \<and> set_access_token a c w = (Inr c', w2) \<longrightarrow>
                 new = [Print ''Error: The given directory does not contain any test_images.'']))
         \<and> (\<forall>ps c title pub w0 r w1.
               imgur_upload e ps c title pub w0 = (r, w1) \<longrightarrow>
               (\<exists>new. trace w1 = trace w0 @ new \<and> list_ex is_network_call new))"
proof
  show "\<exists>w' new. process e a w = Some (1, w')
           \<and> trace w' = trace w @ new \<and> stdin_pos w' = stdin_pos w
           \<and> list_ex is_error_message new
           \<and> \<not> list_ex is_prompt new \<and> \<not> list_ex is_network_call new
           \<and> (\<forall>c c' w2. load_config w = (Inr c, w) \<and> set_access_token a c w = (Inr c', w2) \<longrightarrow>
                 new = [Print ''Error: The given directory does not contain any test_images.''])"
  proof (rule process_early_exit)
    show "\<not> show_config_path a" by (rule assms(1))
    show "upload_directory e a c w2 =
            Some (Inl (SystemExit 1),
                  emit (Print ''Error: The given directory does not contain any test_images.'') w2)"
      for c w2
      using assms(2,3) get_image_paths_none [OF assms(4,5)] by (simp add: upload_directory_def)
    show "startswith ''Error: The given directory does not contain any test_images.'' ''Error:''"
      by (simp add: startswith_def)
  qed
  show "\<forall>ps c title pub w0 r w1.
               imgur_upload e ps c title pub w0 = (r, w1) \<longrightarrow>
               (\<exists>new. trace w1 = trace w0 @ new \<and> list_ex is_network_call new)"
    using imgur_upload_calls_network by blast
qed

theorem no_images_exits_witness:
  "(\<exists>w' new. process example_env (example_args\<lparr>dir_path := Some ''empty''\<rparr>) example_world
                  = Some (1, w')
           \<and> trace w' = trace example_world @ new \<and> stdin_pos w' = stdin_pos example_world
           \<and> list_ex is_error_message new
           \<and> \<not> list_ex is_prompt new \<and> \<not> list_ex is_network_call new
           \<and> (\<forall>c c' w2. load_config example_world = (Inr c, example_world)
                  \<and> set_access_token (example_args\<lparr>dir_path := Some ''empty''\<rparr>) c example_world
                      = (Inr c', w2) \<longrightarrow>
                 new = [Print ''Error: The given directory does not contain any test_images.'']))
   \<and> process example_env (example_args\<lparr>dir_path := Some ''empty''\<rparr>) example_world =
       Some (1, example_world\<lparr>trace :=
         [Print ''Error: The given directory does not contain any test_images.'']\<rparr>)"
proof
  have "\<not> show_config_path (example_args\<lparr>dir_path := Some ''empty''\<rparr>)"
    "dir_path (example_args\<lparr>dir_path := Some ''empty''\<rparr>) = Some ''empty''"
    "is_dir example_env ''empty''" "iterdir example_env ''empty'' = Some [''empty/notes.txt'']"
    "\<forall>p \<in> set [''empty/notes.txt'']. lower (suffix p) \<notin> set image_suffixes"
    by (simp_all add: example_args_def example_env_def suffix_def name_def rfind_def lower_def
         lower_char_def image_suffixes_def)
  from no_images_exits [OF this]
  show "\<exists>w' new. process example_env (example_args\<lparr>dir_path := Some ''empty''\<rparr>) example_world
                  = Some (1, w')
           \<and> trace w' = trace example_world @ new \<and> stdin_pos w' = stdin_pos example_world
           \<and> list_ex is_error_message new
           \<and> \<not> list_ex is_prompt new \<and> \<not> list_ex is_network_call new
           \<and> (\<forall>c c' w2. load_config example_world = (Inr c, example_world)
                  \<and> set_access_token (example_args\<lparr>dir_path := Some ''empty''\<rparr>) c example_world
                      = (Inr c', w2) \<longrightarrow>
                 new = [Print ''Error: The given directory does not contain any test_images.''])"
    by blast
  show "process example_env (example_args\<lparr>dir_path := Some ''empty''\<rparr>) example_world =
       Some (1, example_world\<lparr>trace :=
         [Print ''Error: The given directory does not contain any test_images.'']\<rparr>)"
    by (simp add: process_def main_def load_config_def exists_def set_access_token_def upload_directory_def
        get_image_paths_def natsorted_def suffix_def name_def rfind_def lower_def
         lower_char_def image_suffixes_def
        example_env_def example_args_def example_world_def emit_def)
qed


section \<open>The token is saved before the directory is checked\<close>

text \<open>
  Claim C10, as stated, fails: with a configuration file whose text is not JSON, a run
  with \<open>--access-token\<close> and a path that is not a directory ends with exit status 1 in
  \<open>load_config\<close>, and the file is left as it was; the new token is not written.
\<close>

theorem token_not_saved_counterexample:
  "process example_env
     (example_args\<lparr>access_token := Some ''abc123'', dir_path := Some ''pics/a.png''\<rparr>)
     (example_world\<lparr>config_file := Some Malformed\<rparr>) =
   Some (1, example_world\<lparr>config_file := Some Malformed,
              trace := [Print ''Error: Could not read configuration file.'',
                        PrintExn JSONDecodeError]\<rparr>)"
  by (simp add: process_def main_def load_config_def exists_def from_json_file_def
        example_args_def example_world_def emit_def)

text \<open>
  Claim C10, amended. For a run with a non-empty \<open>--access-token\<close> and a directory
  argument that does not denote a directory: when the existing configuration loads and
  the file can be written, the process ends with exit status 1 after the
  not-a-directory error, and the configuration file then holds the new token; when
  loading the existing configuration fails, the process ends with exit status 1 and the
  configuration file is unchanged.
\<close>

theorem token_saved_before_directory_check:
  assumes "\<not> show_config_path a" and "access_token a = Some t" and "t \<noteq> []"
    and "dir_path a = Some d" and "\<not> is_dir e d"
  shows "((\<exists>c. load_config w = (Inr c, w)) \<and> config_writable w \<longrightarrow>
            process e a w =
              Some (1, w\<lparr>config_file := Some (Document (JObj [(''imgur_access_token'', JStr t)])),
                        trace := trace w @ [Print ''Error: The given path is not a directory.'']\<rparr>))
         \<and> ((\<exists>x w1. load_config w = (Inl x, w1)) \<longrightarrow>
              (\<exists>w'. process e a w = Some (1, w') \<and> config_file w' = config_file w))"
proof (intro conjI impI)
  assume "(\<exists>c. load_config w = (Inr c, w)) \<and> config_writable w"
  then obtain c where l: "load_config w = (Inr c, w)" and wr: "config_writable w" by blast
  have s: "set_access_token a c w =
             (Inr (c\<lparr>imgur_access_token := JStr t\<rparr>),
              w\<lparr>config_file := Some (Document (JObj [(''imgur_access_token'', JStr t)]))\<rparr>)"
  proof -
    from load_config_returns [OF l] have "config_file w \<noteq> Some Unsearchable" by auto
    with assms(2,3) wr show ?thesis
      by (simp add: set_access_token_def to_json_file_def asdict_def)
  qed
  show "process e a w =
              Some (1, w\<lparr>config_file := Some (Document (JObj [(''imgur_access_token'', JStr t)])),
                        trace := trace w @ [Print ''Error: The given path is not a directory.'']\<rparr>)"
    using assms l s by (simp add: process_def main_def upload_directory_def emit_def)
next
  assume "\<exists>x w1. load_config w = (Inl x, w1)"
  then obtain x w1 where l: "load_config w = (Inl x, w1)" by blast
  from load_config_effect [OF l] have
    "((\<forall>n. x \<noteq> SystemExit n) \<and> w1 = w)
       \<or> (x = SystemExit 1 \<and> (\<exists>y. w1 = emit (PrintExn y) (emit (Print ''Error: Could not read configuration file.'') w)))"
    by auto
  then show "\<exists>w'. process e a w = Some (1, w') \<and> config_file w' = config_file w"
    using l assms(1) by (cases x) (auto simp add: process_def main_def emit_def)
qed

theorem token_saved_before_directory_check_witness:
  "process example_env
     (example_args\<lparr>access_token := Some ''abc123'', dir_path := Some ''pics/a.png''\<rparr>)
     example_world =
   Some (1, example_world\<lparr>config_file := Some (Document (JObj [(''imgur_access_token'', JStr ''abc123'')])),
              trace := [Print ''Error: The given path is not a directory.'']\<rparr>)
   \<and> (\<exists>w'. process example_env
     (example_args\<lparr>access_token := Some ''abc123'', dir_path := Some ''pics/a.png''\<rparr>)
     (example_world\<lparr>config_file := Some Undecodable\<rparr>) = Some (1, w')
        \<and> config_file w' = Some Undecodable)"
proof -
  have l: "load_config example_world = (Inr Config_default, example_world)"
    by (simp add: load_config_def exists_def example_world_def)
  have l2: "load_config (example_world\<lparr>config_file := Some Undecodable\<rparr>) =
             (Inl ValueError, example_world\<lparr>config_file := Some Undecodable\<rparr>)"
    by (simp add: load_config_def exists_def from_json_file_def example_world_def)
  show ?thesis
    using l l2
      token_saved_before_directory_check
        [of "example_args\<lparr>access_token := Some ''abc123'', dir_path := Some ''pics/a.png''\<rparr>"
            "''abc123''" "''pics/a.png''" example_env example_world]
      token_saved_before_directory_check
        [of "example_args\<lparr>access_token := Some ''abc123'', dir_path := Some ''pics/a.png''\<rparr>"
            "''abc123''" "''pics/a.png''" example_env "example_world\<lparr>config_file := Some Undecodable\<rparr>"]
    by (simp add: example_args_def example_env_def) (simp add: example_world_def)
qed

section \<open>The scenario of the specification\<close>

text \<open>
  The run of the whole process on the example: discovery in natural order, a rejected
  answer, a confirmation, four uploads in order, the entry that is not a file skipped,
  and one hidden album with the four identifiers. The exit status is 0.
\<close>

lemma end_to_end_example:
  "process example_env example_args example_world =
     Some (0, example_world\<lparr>stdin_pos := 2, trace := example_prompt_trace @ example_upload_trace\<rparr>)"
proof -
  let ?w3 = "emit (PrintFound (length example_paths))
               (print_paths example_paths
                  (emit (Print ''The following test_images will be uploaded in order:'') example_world))"
  have w3: "?w3 = example_world\<lparr>trace := take 7 example_prompt_trace\<rparr>"
    by code_simp
  have c: "get_confirmation example_env ''Do you want to continue?'' (Some False) ?w3 =
             Some (Inr True, example_world\<lparr>stdin_pos := 2, trace := example_prompt_trace\<rparr>)"
    unfolding w3 get_confirmation_def
    using confirmation_loop_accepts
      [of 1 example_env "example_world\<lparr>trace := take 7 example_prompt_trace\<rparr>" "Some False"
          "''y''" True "prompt_with_hint ''Do you want to continue?'' (Some False)"]
    by (simp add: example_env_def example_world_def answer_spec_def isspace_def
          prompt_with_hint_def example_prompt_trace_def)
  have u: "imgur_upload example_env example_paths Config_default (Some ''Chapter 1'') False
             (example_world\<lparr>stdin_pos := 2, trace := example_prompt_trace\<rparr>) =
           (Inr (), example_world\<lparr>stdin_pos := 2,
                      trace := example_prompt_trace @ example_upload_trace\<rparr>)"
    by code_simp
  have l: "load_config example_world = (Inr Config_default, example_world)"
    by (simp add: load_config_def exists_def example_world_def)
  have s: "set_access_token example_args Config_default example_world = (Inr Config_default, example_world)"
    by (simp add: set_access_token_def example_args_def)
  have d: "dir_path example_args = Some ''pics''" "is_dir example_env ''pics''"
    "album_name example_args = Some ''Chapter 1''" "public example_args = False"
    "\<not> show_config_path example_args" "example_paths \<noteq> []"
    by (simp_all add: example_args_def example_env_def example_paths_def)
  show ?thesis
    by (simp add: process_def main_def l s upload_directory_def d example_discovery
          confirm_and_upload_def c u)
qed

end
